theory Spec2Isabelle
  imports Main "HOL-Library.Word"
begin

unbundle bit_operations_syntax

section \<open>Platform constants\<close>

text \<open>
  The errno numbers come from the platform's \<^verbatim>\<open>errno.h\<close> (Linux values). C \<^verbatim>\<open>int\<close>
  values that are only compared, negated or passed on are modelled as \<open>int\<close>; flag
  words, where the code works bitwise, are \<open>32 word\<close>.
\<close>

definition ENOENT :: int where "ENOENT = 2"
definition EINTR :: int where "EINTR = 4"
definition ECHILD :: int where "ECHILD = 10"
definition EAGAIN :: int where "EAGAIN = 11"
definition EWOULDBLOCK :: int where "EWOULDBLOCK = 11"
definition ENOMEM :: int where "ENOMEM = 12"
definition EACCES :: int where "EACCES = 13"
definition EINVAL :: int where "EINVAL = 22"
definition EINPROGRESS :: int where "EINPROGRESS = 115"

section \<open>POSIX pipes (src/unix/pipe.c)\<close>

subsection \<open>The pipe handle\<close>

text \<open>
  The I/O watcher embedded in a stream handle. \<open>pevents\<close> is the set of events the
  watcher is started for (empty when stopped) and \<open>pending\<close> says whether the watcher
  sits on the loop's pending queue; both belong to the loop core, which this file only
  calls.
\<close>

datatype io_cb = uv__stream_io | uv__pipe_accept_cb

record uv__io_t =
  fd :: int
  cb :: io_cb
  pevents :: "32 word"
  pending :: bool

text \<open>A connect request: the handle is kept by its descriptor, the callback by a name.\<close>

record uv_connect_t =
  req_cb :: nat
  req_handle_set :: bool

record uv_pipe_t =
  flags :: "32 word"
  close_cb :: "nat option"
  io_watcher :: uv__io_t
  pipe_fname :: "string option"
  shutdown_req :: "nat option"
  connect_req :: "uv_connect_t option"
  connection_cb :: nat
  accepted_fd :: int
  delayed_error :: int

definition uv__stream_fd :: "uv_pipe_t \<Rightarrow> int" where
  "uv__stream_fd handle = fd (io_watcher handle)"

text \<open>The system calls a pipe operation makes, in the order it makes them.\<close>

datatype syscall =
  Sys_close int
  | Sys_unlink string
  | Sys_free_name

subsection \<open>uv_pipe_bind\<close>

text \<open>
  What the operating system answers during one \<^verbatim>\<open>uv_pipe_bind\<close>: whether
  \<^verbatim>\<open>strdup\<close> returned a copy, the result of \<^verbatim>\<open>uv__socket\<close> (a
  descriptor, or a negated errno), and the errno of \<^verbatim>\<open>bind\<close> when it fails.
\<close>

record bind_os =
  strdup_ok :: bool
  socket_res :: int
  bind_errno :: "int option"

text \<open>
  The label \<^verbatim>\<open>out:\<close>. \<^verbatim>\<open>bound\<close> is still 0 on every path that reaches it, so
  only the descriptor is closed and the copy of the name freed.
\<close>

definition bind_out :: "bool \<Rightarrow> string option \<Rightarrow> int \<Rightarrow> syscall list" where
  "bind_out bound fname sockfd =
     (if bound then (case fname of Some n \<Rightarrow> [Sys_unlink n] | None \<Rightarrow> []) else [])
     @ [Sys_close sockfd, Sys_free_name]"

definition uv_pipe_bind :: "uv_pipe_t \<Rightarrow> string \<Rightarrow> bind_os \<Rightarrow> int \<times> uv_pipe_t \<times> syscall list" where
  "uv_pipe_bind handle name os =
     (if uv__stream_fd handle \<ge> 0 then (- EINVAL, handle, [])
      else if \<not> strdup_ok os then (- ENOMEM, handle, bind_out False None (-1))
      else if socket_res os < 0 then (socket_res os, handle, bind_out False (Some name) (-1))
      else
        (case bind_errno os of
           Some errno \<Rightarrow>
             (let err = - errno;
                  err = (if err = - ENOENT then - EACCES else err)
              in (err, handle, bind_out False (Some name) (socket_res os)))
         | None \<Rightarrow>
             (0,
              handle\<lparr>pipe_fname := Some name,
                     io_watcher := (io_watcher handle)\<lparr>fd := socket_res os\<rparr>\<rparr>,
              [])))"

subsection \<open>Constants of uv.h and internal.h\<close>

text \<open>
  The flag bits of \<^verbatim>\<open>uv.h\<close> (the \<^verbatim>\<open>UV_PIPE_*\<close> flags given to
  \<^verbatim>\<open>uv_pipe_init\<close>) and of \<^verbatim>\<open>internal.h\<close> (the bits kept in
  \<^verbatim>\<open>handle->flags\<close>, the poll events) are declared in headers that are not part of the
  sources read here. The operations take them as a parameter, so every property holds for
  whatever values the headers give.
\<close>

record pipe_consts =
  UV_PIPE_IPC :: "32 word"
  UV_PIPE_SPAWN_SAFE :: "32 word"
  UV_PIPE_READABLE :: "32 word"
  UV_PIPE_WRITEABLE :: "32 word"
  UV_HANDLE_PIPE_IPC :: "32 word"
  UV_HANDLE_PIPE_SPAWN_SAFE :: "32 word"
  UV_STREAM_READABLE :: "32 word"
  UV_STREAM_WRITABLE :: "32 word"
  UV__POLLIN :: "32 word"
  UV__POLLOUT :: "32 word"
  UV_CLOSING :: "32 word"
  UV_CLOSED :: "32 word"

text \<open>C's truth value of an integer expression.\<close>

definition c_true :: "32 word \<Rightarrow> bool" where
  "c_true w = (w \<noteq> 0)"

subsection \<open>The loop core's watcher operations\<close>

text \<open>
  Modelled from the spec: \<^verbatim>\<open>uv__io_start\<close>, \<^verbatim>\<open>uv__io_stop\<close> and
  \<^verbatim>\<open>uv__io_feed\<close> belong to the event loop, which the spec treats as an external
  collaborator "providing handle registration, I/O readiness callbacks, a completion-post
  primitive". Starting a watcher adds events to the set it is registered for, stopping
  removes them, and feeding puts the watcher on the loop's pending queue, whose callbacks
  the loop runs in its next iteration.
\<close>

definition uv__io_start :: "uv__io_t \<Rightarrow> 32 word \<Rightarrow> uv__io_t" where
  "uv__io_start w events = w\<lparr>pevents := pevents w OR events\<rparr>"

definition uv__io_stop :: "uv__io_t \<Rightarrow> 32 word \<Rightarrow> uv__io_t" where
  "uv__io_stop w events = w\<lparr>pevents := pevents w AND NOT events\<rparr>"

definition uv__io_feed :: "uv__io_t \<Rightarrow> uv__io_t" where
  "uv__io_feed w = w\<lparr>pending := True\<rparr>"

text \<open>
  Modelled from the spec: \<^verbatim>\<open>uv__stream_open\<close> (stream.c) "adopts an existing
  descriptor": when it succeeds (\<open>res = 0\<close>) the handle gets the flags and the descriptor,
  when it fails the handle is unchanged and the error is returned.
\<close>

definition uv__stream_open :: "uv_pipe_t \<Rightarrow> int \<Rightarrow> 32 word \<Rightarrow> int \<Rightarrow> int \<times> uv_pipe_t" where
  "uv__stream_open stream fd' fl res =
     (if res = 0
      then (0, stream\<lparr>flags := flags stream OR fl,
                       io_watcher := (io_watcher stream)\<lparr>fd := fd'\<rparr>\<rparr>)
      else (res, stream))"

text \<open>
  Modelled from the spec: \<^verbatim>\<open>uv__stream_close\<close> (stream.c) and
  \<^verbatim>\<open>uv__finish_close\<close> (core.c). Closing a stream "detaches from watchers" and
  releases the descriptor: the watcher is stopped, taken off the pending queue and left
  without a descriptor. Finishing a close marks the handle closed and calls its close
  callback when it has one.
\<close>

definition uv__stream_close :: "uv_pipe_t \<Rightarrow> uv_pipe_t" where
  "uv__stream_close handle =
     handle\<lparr>io_watcher := (io_watcher handle)\<lparr>fd := -1, pevents := 0, pending := False\<rparr>\<rparr>"

definition uv__finish_close :: "pipe_consts \<Rightarrow> uv_pipe_t \<Rightarrow> uv_pipe_t \<times> nat list" where
  "uv__finish_close K handle =
     (handle\<lparr>flags := flags handle OR UV_CLOSED K\<rparr>,
      case close_cb handle of None \<Rightarrow> [] | Some f \<Rightarrow> [f])"

subsection \<open>uv_pipe_init\<close>

text \<open>
  \<open>handle\<close> is the handle as \<^verbatim>\<open>uv__stream_init\<close> leaves it; the function then clears
  the requests and the name and sets the capability bits.
\<close>

definition uv_pipe_init :: "pipe_consts \<Rightarrow> uv_pipe_t \<Rightarrow> 32 word \<Rightarrow> int \<times> uv_pipe_t" where
  "uv_pipe_init K handle fl =
     (0, handle\<lparr>shutdown_req := None, connect_req := None, pipe_fname := None,
                flags := flags handle OR
                  ((if c_true (fl AND UV_PIPE_IPC K) then UV_HANDLE_PIPE_IPC K else 0) OR
                   (if c_true (fl AND UV_PIPE_SPAWN_SAFE K) then UV_HANDLE_PIPE_SPAWN_SAFE K else 0) OR
                   (if c_true (fl AND UV_PIPE_READABLE K) then UV_STREAM_READABLE K else 0) OR
                   (if c_true (fl AND UV_PIPE_WRITEABLE K) then UV_STREAM_WRITABLE K else 0))\<rparr>)"

subsection \<open>uv_pipe_link\<close>

text \<open>
  The answers of the operating system during one \<^verbatim>\<open>uv_pipe_link\<close>: whether the
  build has \<^verbatim>\<open>SOCK_NONBLOCK\<close>, the result of \<^verbatim>\<open>socketpair\<close> with
  \<^verbatim>\<open>SOCK_NONBLOCK\<close> and without it (an errno, or the two descriptors), and the results
  of the two \<^verbatim>\<open>uv__stream_open\<close> calls.
\<close>

record link_os =
  have_SOCK_NONBLOCK :: bool
  socketpair_nonblock :: "int + int \<times> int"
  socketpair_plain :: "int + int \<times> int"
  open_read_res :: int
  open_write_res :: int

text \<open>
  What a link did to the descriptors: the mode \<^verbatim>\<open>socketpair\<close> created them in, and
  the calls of \<^verbatim>\<open>uv__cloexec\<close>, \<^verbatim>\<open>uv__nonblock\<close> and \<^verbatim>\<open>close\<close>.
\<close>

datatype link_call =
  Socketpair bool "int \<times> int"
  | Cloexec int bool
  | Nonblock int bool
  | Close int
  | Pipe_close_sync

text \<open>
  \<^verbatim>\<open>uv_pipe_close_sync\<close>: the stream is closed, the close callback cleared, the
  closing bit set and the close finished at once. The close callback is cleared before
  the close is finished, so the result is the handle alone.
\<close>

definition uv_pipe_close_sync :: "pipe_consts \<Rightarrow> uv_pipe_t \<Rightarrow> uv_pipe_t" where
  "uv_pipe_close_sync K pipe =
     (let pipe = uv__stream_close pipe;
          pipe = pipe\<lparr>close_cb := None\<rparr>;
          pipe = pipe\<lparr>flags := flags pipe OR UV_CLOSING K\<rparr>
      in fst (uv__finish_close K pipe))"

text \<open>The label \<^verbatim>\<open>open_fds:\<close> and what follows it.\<close>

definition link_open_fds ::
  "pipe_consts \<Rightarrow> uv_pipe_t \<Rightarrow> uv_pipe_t \<Rightarrow> link_os \<Rightarrow> int \<times> int \<Rightarrow> link_call list
     \<Rightarrow> int \<times> uv_pipe_t \<times> uv_pipe_t \<times> link_call list" where
  "link_open_fds K read write os fds calls =
     (case uv__stream_open read (fst fds) 0 (open_read_res os) of (err, read') \<Rightarrow>
        if err \<noteq> 0 then (-1, read', write, calls @ [Close (fst fds), Close (snd fds)])
        else
          (case uv__stream_open write (snd fds) 0 (open_write_res os) of (err, write') \<Rightarrow>
             if err \<noteq> 0
             then (-1, uv_pipe_close_sync K read', write',
                   calls @ [Pipe_close_sync, Close (fst fds), Close (snd fds)])
             else (0, read', write', calls)))"

text \<open>The second \<^verbatim>\<open>socketpair\<close>, without \<^verbatim>\<open>SOCK_NONBLOCK\<close>.\<close>

definition link_plain ::
  "pipe_consts \<Rightarrow> uv_pipe_t \<Rightarrow> uv_pipe_t \<Rightarrow> link_os
     \<Rightarrow> int \<times> uv_pipe_t \<times> uv_pipe_t \<times> link_call list" where
  "link_plain K read write os =
     (case socketpair_plain os of
        Inl errno \<Rightarrow> (-1, read, write, [])
      | Inr fds \<Rightarrow>
          link_open_fds K read write os fds
            ([Socketpair False fds, Cloexec (fst fds) True, Cloexec (snd fds) True]
             @ (if c_true (NOT (flags read AND UV_PIPE_SPAWN_SAFE K))
                then [Nonblock (fst fds) True] else [])
             @ (if c_true (NOT (flags write AND UV_PIPE_SPAWN_SAFE K))
                then [Nonblock (snd fds) True] else [])))"

definition uv_pipe_link ::
  "pipe_consts \<Rightarrow> uv_pipe_t \<Rightarrow> uv_pipe_t \<Rightarrow> link_os
     \<Rightarrow> int \<times> uv_pipe_t \<times> uv_pipe_t \<times> link_call list" where
  "uv_pipe_link K read write os =
     (if have_SOCK_NONBLOCK os \<and>
         c_true (NOT ((flags read OR flags write) AND UV_PIPE_SPAWN_SAFE K))
      then
        (case socketpair_nonblock os of
           Inr fds \<Rightarrow> link_open_fds K read write os fds [Socketpair True fds]
         | Inl errno \<Rightarrow>
             if errno \<noteq> EINVAL then (-1, read, write, [])
             else link_plain K read write os)
      else link_plain K read write os)"

text \<open>
  Whether the calls of a link put descriptor \<open>d\<close> in non-blocking mode: it came from a
  \<^verbatim>\<open>socketpair\<close> with \<^verbatim>\<open>SOCK_NONBLOCK\<close>, or \<^verbatim>\<open>uv__nonblock(d, 1)\<close> was called.
\<close>

fun sets_nonblock :: "int \<Rightarrow> link_call \<Rightarrow> bool" where
  "sets_nonblock d (Socketpair nb fds) = (nb \<and> (d = fst fds \<or> d = snd fds))"
| "sets_nonblock d (Nonblock d' on) = (on \<and> d = d')"
| "sets_nonblock d _ = False"

definition nonblocking_applied :: "link_call list \<Rightarrow> int \<Rightarrow> bool" where
  "nonblocking_applied calls d = list_ex (sets_nonblock d) calls"

subsection \<open>uv_pipe_connect\<close>

text \<open>
  The answers of the operating system during one \<^verbatim>\<open>uv_pipe_connect\<close>: the result of
  \<^verbatim>\<open>uv__socket\<close>, the successive results \<open>(r, errno)\<close> of \<^verbatim>\<open>connect\<close>, and the
  result of \<^verbatim>\<open>uv__stream_open\<close>.
\<close>

record connect_os =
  c_socket_res :: int
  connect_answers :: "(int \<times> int) list"
  c_open_res :: int

text \<open>
  The loop \<^verbatim>\<open>do r = connect(...) while (r == -1 && errno == EINTR)\<close>. It ends at the
  first answer that is not an interruption; \<open>None\<close> is the run in which every answer
  given was \<open>EINTR\<close>, so the loop has not ended.
\<close>

fun connect_loop :: "(int \<times> int) list \<Rightarrow> (int \<times> int) option" where
  "connect_loop [] = None"
| "connect_loop ((r, errno) # rest) =
     (if r = -1 \<and> errno = EINTR then connect_loop rest else Some (r, errno))"

text \<open>A call of a user callback: which callback, and the status it was given.\<close>

datatype callback = Connect_cb nat int | Connection_cb nat int

text \<open>The function up to the label \<^verbatim>\<open>out:\<close>: the value of \<^verbatim>\<open>err\<close> there, and the handle.\<close>

definition connect_body ::
  "pipe_consts \<Rightarrow> uv_pipe_t \<Rightarrow> connect_os \<Rightarrow> (int \<times> uv_pipe_t) option" where
  "connect_body K handle os =
     (let new_sock = (uv__stream_fd handle = -1) in
      if new_sock \<and> c_socket_res os < 0 then Some (c_socket_res os, handle)
      else
        (let handle = (if new_sock
                       then handle\<lparr>io_watcher := (io_watcher handle)\<lparr>fd := c_socket_res os\<rparr>\<rparr>
                       else handle)
         in case connect_loop (connect_answers os) of
              None \<Rightarrow> None
            | Some (r, errno) \<Rightarrow>
                if r = -1 \<and> errno \<noteq> EINPROGRESS then Some (- errno, handle)
                else
                  (case (if new_sock
                         then uv__stream_open handle (uv__stream_fd handle)
                                (UV_STREAM_READABLE K OR UV_STREAM_WRITABLE K) (c_open_res os)
                         else (0, handle)) of
                     (err, handle) \<Rightarrow>
                       if err = 0
                       then Some (err, handle\<lparr>io_watcher :=
                              uv__io_start (io_watcher handle) (UV__POLLIN K OR UV__POLLOUT K)\<rparr>)
                       else Some (err, handle))))"

text \<open>
  The whole function. It returns nothing (\<^verbatim>\<open>void\<close>); the result is the request and the
  handle as it leaves them, and the user callbacks it called, in order.
\<close>

definition uv_pipe_connect ::
  "pipe_consts \<Rightarrow> uv_connect_t \<Rightarrow> uv_pipe_t \<Rightarrow> string \<Rightarrow> nat \<Rightarrow> connect_os
     \<Rightarrow> (uv_connect_t \<times> uv_pipe_t \<times> callback list) option" where
  "uv_pipe_connect K req handle name cb' os =
     (case connect_body K handle os of
        None \<Rightarrow> None
      | Some (err, handle) \<Rightarrow>
          (let req = req\<lparr>req_handle_set := True, req_cb := cb'\<rparr>;
               handle = handle\<lparr>delayed_error := err, connect_req := Some req\<rparr>;
               handle = (if err \<noteq> 0
                         then handle\<lparr>io_watcher := uv__io_feed (io_watcher handle)\<rparr>
                         else handle)
           in Some (req, handle, [])))"

subsection \<open>uv__pipe_accept\<close>

text \<open>
  The accept watcher. \<open>sockfd\<close> and \<open>errno\<close> are what \<^verbatim>\<open>uv__accept\<close> answered; \<open>user\<close>
  is what the user's connection callback does to the pipe when it is called with a status
  (calling \<^verbatim>\<open>uv_accept\<close>, for instance, which empties the \<open>accepted_fd\<close> slot).
\<close>

definition uv__pipe_accept ::
  "pipe_consts \<Rightarrow> (uv_pipe_t \<Rightarrow> int \<Rightarrow> uv_pipe_t) \<Rightarrow> uv_pipe_t \<Rightarrow> int \<Rightarrow> int
     \<Rightarrow> uv_pipe_t \<times> callback list" where
  "uv__pipe_accept K user pipe sockfd errno =
     (if sockfd = -1 then
        (if errno \<noteq> EAGAIN \<and> errno \<noteq> EWOULDBLOCK
         then (user pipe (- errno), [Connection_cb (connection_cb pipe) (- errno)])
         else (pipe, []))
      else
        (let pipe1 = pipe\<lparr>accepted_fd := sockfd\<rparr>;
             pipe2 = user pipe1 0
         in ((if accepted_fd pipe2 = sockfd
              then pipe2\<lparr>io_watcher := uv__io_stop (io_watcher pipe2) (UV__POLLIN K)\<rparr>
              else pipe2),
             [Connection_cb (connection_cb pipe1) 0])))"

text \<open>
  The error a connect ends with, in the spec's words: the socket could not be created,
  \<^verbatim>\<open>connect\<close> failed with something other than \<open>EINPROGRESS\<close>, or the new
  descriptor could not be opened as a stream; otherwise none. \<open>(r, errno)\<close> is the
  answer of \<^verbatim>\<open>connect\<close> that was not an interruption.
\<close>

definition connect_outcome_error :: "uv_pipe_t \<Rightarrow> connect_os \<Rightarrow> int \<Rightarrow> int \<Rightarrow> int" where
  "connect_outcome_error handle os r errno =
     (if uv__stream_fd handle = -1 \<and> c_socket_res os < 0 then c_socket_res os
      else if r = -1 \<and> errno \<noteq> EINPROGRESS then - errno
      else if uv__stream_fd handle = -1 then c_open_res os
      else 0)"

section \<open>POSIX processes (src/unix/process.c)\<close>

subsection \<open>Process handles and the loop's queues\<close>

text \<open>
  A process handle: the child's pid, the last wait status, the exit callback (\<open>None\<close> is
  \<^verbatim>\<open>NULL\<close>) and whether the handle is active (\<^verbatim>\<open>uv__handle_start\<close> and
  \<^verbatim>\<open>uv__handle_stop\<close>). \<^verbatim>\<open>loop->process_handles\<close> is an array of queues; a queue is
  the list of the handles linked into it, head first.
\<close>

record uv_process_t =
  pid :: int
  status :: "32 word"
  exit_cb :: "nat option"
  active :: bool

type_synonym process_handles = "uv_process_t list list"

text \<open>
  \<^verbatim>\<open>uv__process_queue\<close>: the index of the queue of a pid (the function asserts
  \<open>pid > 0\<close>).
\<close>

definition uv__process_queue :: "process_handles \<Rightarrow> int \<Rightarrow> nat" where
  "uv__process_queue handles pid' = nat (pid' mod int (length handles))"

definition QUEUE_INSERT_TAIL :: "process_handles \<Rightarrow> nat \<Rightarrow> uv_process_t \<Rightarrow> process_handles" where
  "QUEUE_INSERT_TAIL handles i process = handles[i := handles ! i @ [process]]"

subsection \<open>The wait status macros\<close>

text \<open>
  The macros of \<^verbatim>\<open>sys/wait.h\<close>, as glibc defines them on the status word:
  \<^verbatim>\<open>WEXITSTATUS(s) = (s & 0xff00) >> 8\<close>, \<^verbatim>\<open>WTERMSIG(s) = s & 0x7f\<close>,
  \<^verbatim>\<open>WIFEXITED(s) = (WTERMSIG(s) == 0)\<close> and
  \<^verbatim>\<open>WIFSIGNALED(s) = (((signed char) ((s & 0x7f) + 1) >> 1) > 0)\<close>.
\<close>

definition WEXITSTATUS :: "32 word \<Rightarrow> int" where
  "WEXITSTATUS s = sint (drop_bit 8 (s AND 0xff00))"

definition WTERMSIG :: "32 word \<Rightarrow> int" where
  "WTERMSIG s = sint (s AND 0x7f)"

definition WIFEXITED :: "32 word \<Rightarrow> bool" where
  "WIFEXITED s = (WTERMSIG s = 0)"

definition WIFSIGNALED :: "32 word \<Rightarrow> bool" where
  "WIFSIGNALED s = (sint (signed_drop_bit 1 (ucast ((s AND 0x7f) + 1) :: 8 word)) > 0)"

subsection \<open>uv__chld\<close>

text \<open>
  An answer of \<^verbatim>\<open>waitpid(pid, &status, WNOHANG)\<close>: the value returned, the errno, and
  the status word it stored. The environment of one run of the reaper gives, for every
  pid, the successive answers.
\<close>

type_synonym wait_answer = "int \<times> int \<times> 32 word"

text \<open>
  \<^verbatim>\<open>do pid = waitpid(...) while (pid == -1 && errno == EINTR)\<close>: the first answer that
  is not an interruption; \<open>None\<close> when every answer given was one.
\<close>

fun waitpid_loop :: "wait_answer list \<Rightarrow> wait_answer option" where
  "waitpid_loop [] = None"
| "waitpid_loop ((r, errno, st) # rest) =
     (if r = -1 \<and> errno = EINTR then waitpid_loop rest else Some (r, errno, st))"

text \<open>How a run ends: it returns, it calls \<^verbatim>\<open>abort()\<close>, or it is still retrying.\<close>

datatype 'a run = Returns 'a | Aborts | Retrying

text \<open>A call of the user's exit callback: the pid of the handle, the callback, and its
  arguments \<open>exit_status\<close> and \<open>term_signal\<close>.\<close>

datatype exit_call = Exit_cb int nat int int

text \<open>
  The scan of one queue (the inner \<^verbatim>\<open>while (q != h)\<close>): the handles left on the queue
  and the handles moved to \<^verbatim>\<open>pending\<close>, with their status stored.
\<close>

fun chld_scan ::
  "(int \<Rightarrow> wait_answer list) \<Rightarrow> uv_process_t list \<Rightarrow> (uv_process_t list \<times> uv_process_t list) run" where
  "chld_scan w [] = Returns ([], [])"
| "chld_scan w (process # q) =
     (case waitpid_loop (w (pid process)) of
        None \<Rightarrow> Retrying
      | Some (r, errno, st) \<Rightarrow>
          if r = 0 then
            (case chld_scan w q of
               Returns (left, pend) \<Rightarrow> Returns (process # left, pend)
             | Aborts \<Rightarrow> Aborts | Retrying \<Rightarrow> Retrying)
          else if r = -1 then
            (if errno \<noteq> ECHILD then Aborts
             else
               (case chld_scan w q of
                  Returns (left, pend) \<Rightarrow> Returns (process # left, pend)
                | Aborts \<Rightarrow> Aborts | Retrying \<Rightarrow> Retrying))
          else
            (case chld_scan w q of
               Returns (left, pend) \<Rightarrow> Returns (left, process\<lparr>status := st\<rparr> # pend)
             | Aborts \<Rightarrow> Aborts | Retrying \<Rightarrow> Retrying))"

text \<open>The arguments of the exit callback, decoded from the stored status.\<close>

definition chld_exit_status :: "32 word \<Rightarrow> int" where
  "chld_exit_status st = (if WIFEXITED st then WEXITSTATUS st else 0)"

definition chld_term_signal :: "32 word \<Rightarrow> int" where
  "chld_term_signal st = (if WIFSIGNALED st then WTERMSIG st else 0)"

text \<open>
  The drain of \<^verbatim>\<open>pending\<close> (the second \<^verbatim>\<open>while\<close>): every handle is stopped; the
  callback is called unless it is \<^verbatim>\<open>NULL\<close>. The result is the handles as they are
  left and the calls made.
\<close>

fun chld_drain :: "uv_process_t list \<Rightarrow> uv_process_t list \<times> exit_call list" where
  "chld_drain [] = ([], [])"
| "chld_drain (process # pend) =
     (let process = process\<lparr>active := False\<rparr>;
          (stopped, calls) = chld_drain pend
      in case exit_cb process of
           None \<Rightarrow> (process # stopped, calls)
         | Some f \<Rightarrow>
             (process # stopped,
              Exit_cb (pid process) f (chld_exit_status (status process))
                (chld_term_signal (status process)) # calls))"

text \<open>
  The outer \<^verbatim>\<open>for\<close> over the queues. The result is the queues as they are left, the
  handles that were reaped (no longer on any queue), and the callbacks called, in order.
\<close>

fun chld_queues ::
  "(int \<Rightarrow> wait_answer list) \<Rightarrow> process_handles
     \<Rightarrow> (process_handles \<times> uv_process_t list \<times> exit_call list) run" where
  "chld_queues w [] = Returns ([], [], [])"
| "chld_queues w (h # hs) =
     (case chld_scan w h of
        Aborts \<Rightarrow> Aborts
      | Retrying \<Rightarrow> Retrying
      | Returns (left, pend) \<Rightarrow>
          (case chld_drain pend of (stopped, calls) \<Rightarrow>
             (case chld_queues w hs of
                Aborts \<Rightarrow> Aborts
              | Retrying \<Rightarrow> Retrying
              | Returns (hs', stopped', calls') \<Rightarrow>
                  Returns (left # hs', stopped @ stopped', calls @ calls'))))"

definition uv__chld ::
  "(int \<Rightarrow> wait_answer list) \<Rightarrow> process_handles
     \<Rightarrow> (process_handles \<times> uv_process_t list \<times> exit_call list) run" where
  "uv__chld w handles = chld_queues w handles"

text \<open>
  What one run of the reaper learns about a handle: the status word, when
  \<^verbatim>\<open>waitpid\<close> reports the child as terminated (it returns neither 0 nor -1).
\<close>

definition reaped_status :: "(int \<Rightarrow> wait_answer list) \<Rightarrow> uv_process_t \<Rightarrow> 32 word option" where
  "reaped_status w process =
     (case waitpid_loop (w (pid process)) of
        None \<Rightarrow> None
      | Some (r, errno, st) \<Rightarrow> if r \<noteq> 0 \<and> r \<noteq> -1 then Some st else None)"

text \<open>The exit callbacks a run owes a handle: one call for a reaped child whose handle has
  a callback, with the decoded arguments; none otherwise.\<close>

definition exit_calls_of :: "(int \<Rightarrow> wait_answer list) \<Rightarrow> uv_process_t \<Rightarrow> exit_call list" where
  "exit_calls_of w process =
     (case reaped_status w process of
        None \<Rightarrow> []
      | Some st \<Rightarrow>
          (case exit_cb process of
             None \<Rightarrow> []
           | Some f \<Rightarrow> [Exit_cb (pid process) f (chld_exit_status st) (chld_term_signal st)]))"


subsection \<open>Spawn options\<close>

text \<open>
  A stdio container, by its \<^verbatim>\<open>type\<close> tag: a stream (\<^verbatim>\<open>NULL\<close>, or a stream whose
  watcher holds a descriptor), a raw descriptor, a raw handle, or any other tag.
\<close>

datatype uv_stdio_container_t =
  UV_STREAM "int option"
  | UV_RAW_FD int
  | UV_RAW_HANDLE int
  | UV_OTHER_TYPE

text \<open>The process flag bits of \<^verbatim>\<open>uv.h\<close>, a parameter like the pipe flags.\<close>

record process_consts =
  UV_PROCESS_SETUID :: "32 word"
  UV_PROCESS_SETGID :: "32 word"
  UV_PROCESS_DETACHED :: "32 word"
  UV_PROCESS_RESET_SIGPIPE :: "32 word"

text \<open>
  The options of a spawn. \<^verbatim>\<open>stdio\<close> and \<^verbatim>\<open>stdio_count\<close> are one list here, and
  \<^verbatim>\<open>options->flags\<close> is \<open>oflags\<close> and \<^verbatim>\<open>options->file\<close> is \<open>opt_file\<close>.
\<close>

record uv_process_options_t =
  opt_file :: string
  args :: "string list"
  env :: "string list option"
  cwd :: "string option"
  oflags :: "32 word"
  stdio :: "uv_stdio_container_t list"
  uid :: int
  gid :: int
  opt_exit_cb :: "nat option"

definition stdio_count :: "uv_process_options_t \<Rightarrow> int" where
  "stdio_count options = int (length (stdio options))"

subsection \<open>uv__process_init_stdio\<close>

text \<open>
  The function fills \<^verbatim>\<open>fds[1]\<close> and returns 0 or an error. With assertions compiled
  out, an unexpected type tag gives \<open>-EINVAL\<close>.
\<close>

definition init_stdio_fd :: "int \<times> int \<Rightarrow> int \<Rightarrow> int \<times> (int \<times> int)" where
  "init_stdio_fd fds f = (if f = -1 then (-1, (fst fds, f)) else (0, (fst fds, f)))"

fun uv__process_init_stdio :: "uv_stdio_container_t \<Rightarrow> int \<times> int \<Rightarrow> int \<times> (int \<times> int)" where
  "uv__process_init_stdio (UV_STREAM None) fds = (0, (fst fds, -1))"
| "uv__process_init_stdio (UV_STREAM (Some f)) fds = init_stdio_fd fds f"
| "uv__process_init_stdio (UV_RAW_FD f) fds = init_stdio_fd fds f"
| "uv__process_init_stdio (UV_RAW_HANDLE f) fds = init_stdio_fd fds f"
| "uv__process_init_stdio UV_OTHER_TYPE fds = (- EINVAL, (fst fds, -1))"

text \<open>
  The loop \<^verbatim>\<open>for (i = 0; i < options->stdio_count; i++)\<close> of \<^verbatim>\<open>uv_spawn\<close> over the
  containers and the rows of \<^verbatim>\<open>pipes\<close>; it stops at the first error.
\<close>

fun spawn_init_stdio ::
  "uv_stdio_container_t list \<Rightarrow> (int \<times> int) list \<Rightarrow> int \<times> (int \<times> int) list" where
  "spawn_init_stdio [] pipes = (0, pipes)"
| "spawn_init_stdio (c # cs) [] = (0, [])"
| "spawn_init_stdio (c # cs) (fds # pipes) =
     (case uv__process_init_stdio c fds of (err, fds') \<Rightarrow>
        if err \<noteq> 0 then (err, fds' # pipes)
        else (case spawn_init_stdio cs pipes of (err', pipes') \<Rightarrow> (err', fds' # pipes')))"

subsection \<open>The child's descriptor table\<close>

text \<open>
  The kernel's table of open descriptors of a process, indexed by descriptor number:
  for an open descriptor, the file it refers to, the access mode and the close-on-exec
  flag. The calls follow POSIX: \<^verbatim>\<open>open\<close> returns the lowest free number,
  \<^verbatim>\<open>dup2\<close> makes the new number a copy without close-on-exec, \<^verbatim>\<open>exec\<close> closes
  what is marked close-on-exec. \<^verbatim>\<open>uv__nonblock\<close> changes the file status flags,
  which the table does not hold.
\<close>

datatype open_mode = O_RDONLY | O_WRONLY | O_RDWR

record fd_entry =
  target :: string
  mode :: open_mode
  cloexec :: bool

type_synonym fd_table = "fd_entry option list"

definition is_open :: "fd_table \<Rightarrow> int \<Rightarrow> bool" where
  "is_open t n = (0 \<le> n \<and> nat n < length t \<and> t ! nat n \<noteq> None)"

fun lowest_free :: "fd_table \<Rightarrow> nat" where
  "lowest_free [] = 0"
| "lowest_free (None # t) = 0"
| "lowest_free (Some e # t) = Suc (lowest_free t)"

definition put_fd :: "fd_table \<Rightarrow> nat \<Rightarrow> fd_entry \<Rightarrow> fd_table" where
  "put_fd t n e =
     (if n < length t then t[n := Some e]
      else t @ replicate (n - length t) None @ [Some e])"

definition sys_open :: "fd_table \<Rightarrow> string \<Rightarrow> open_mode \<Rightarrow> int \<times> fd_table" where
  "sys_open t path m =
     (int (lowest_free t),
      put_fd t (lowest_free t) \<lparr>target = path, mode = m, cloexec = False\<rparr>)"

definition sys_dup2 :: "fd_table \<Rightarrow> int \<Rightarrow> int \<Rightarrow> fd_table" where
  "sys_dup2 t old new =
     (if is_open t old \<and> 0 \<le> new
      then put_fd t (nat new) ((the (t ! nat old))\<lparr>cloexec := False\<rparr>)
      else t)"

definition sys_close :: "fd_table \<Rightarrow> int \<Rightarrow> fd_table" where
  "sys_close t n = (if is_open t n then t[nat n := None] else t)"

definition uv__cloexec :: "fd_table \<Rightarrow> int \<Rightarrow> bool \<Rightarrow> fd_table" where
  "uv__cloexec t n on =
     (if is_open t n then t[nat n := Some ((the (t ! nat n))\<lparr>cloexec := on\<rparr>)] else t)"

definition sys_exec :: "fd_table \<Rightarrow> fd_table" where
  "sys_exec t = map (\<lambda>e. case e of None \<Rightarrow> None
                        | Some x \<Rightarrow> if cloexec x then None else Some x) t"

subsection \<open>uv__process_child_init\<close>

text \<open>
  What the operating system answers in the child: for each of the slots 0, 1, 2 whether
  opening \<^verbatim>\<open>/dev/null\<close> fails (with which errno), and the errno, if any, of
  \<^verbatim>\<open>chdir\<close>, \<^verbatim>\<open>setgid\<close>, \<^verbatim>\<open>setuid\<close>, \<^verbatim>\<open>signal\<close> and \<^verbatim>\<open>exec\<close>.
\<close>

record child_os =
  open_errno :: "nat \<Rightarrow> int option"
  chdir_errno :: "int option"
  setgid_errno :: "int option"
  setuid_errno :: "int option"
  signal_errno :: "int option"
  exec_errno :: "int option"

text \<open>
  The end of one round of the loop over the slots, once \<^verbatim>\<open>use_fd\<close> and
  \<^verbatim>\<open>close_fd\<close> are known: the slot gets the descriptor, then \<^verbatim>\<open>close_fd\<close> is closed
  unless it is -1.
\<close>

definition child_slot :: "nat \<Rightarrow> int \<Rightarrow> int \<Rightarrow> fd_table \<Rightarrow> fd_table" where
  "child_slot n use_fd close_fd t =
     (let t = (if int n = use_fd then uv__cloexec t use_fd False else sys_dup2 t use_fd (int n));
          t = (if close_fd \<noteq> -1 then sys_close t close_fd else t)
      in t)"

text \<open>
  The loop \<^verbatim>\<open>for (fd = 0; fd < stdio_count; fd++)\<close> over the rows \<open>(close_fd, use_fd)\<close>
  of \<^verbatim>\<open>pipes\<close>, from slot \<open>n\<close> on. \<open>Inl err\<close> is the jump to \<^verbatim>\<open>error:\<close>.
\<close>

fun child_stdio :: "(nat \<Rightarrow> int option) \<Rightarrow> nat \<Rightarrow> (int \<times> int) list \<Rightarrow> fd_table \<Rightarrow> int + fd_table" where
  "child_stdio oe n [] t = Inr t"
| "child_stdio oe n ((close_fd, use_fd) # pipes) t =
     (if use_fd < 0 then
        (if n \<ge> 3 then child_stdio oe (Suc n) pipes t
         else
           (case oe n of
              Some errno \<Rightarrow> Inl (- errno)
            | None \<Rightarrow>
                (case sys_open t ''/dev/null'' (if n = 0 then O_RDONLY else O_RDWR) of
                   (use_fd', t') \<Rightarrow>
                     child_stdio oe (Suc n) pipes (child_slot n use_fd' use_fd' t'))))
      else child_stdio oe (Suc n) pipes (child_slot n use_fd close_fd t))"

text \<open>
  The whole child. \<open>Inl err\<close>: the child reported \<open>err\<close> to the parent and called
  \<^verbatim>\<open>_exit(127)\<close>. \<open>Inr t\<close>: \<^verbatim>\<open>exec\<close> succeeded and the new program runs with the
  descriptor table \<open>t\<close>.
\<close>

definition uv__process_child_init ::
  "process_consts \<Rightarrow> uv_process_options_t \<Rightarrow> (int \<times> int) list \<Rightarrow> child_os \<Rightarrow> fd_table
     \<Rightarrow> int + fd_table" where
  "uv__process_child_init P options pipes os t =
     (case child_stdio (open_errno os) 0 pipes t of
        Inl err \<Rightarrow> Inl err
      | Inr t' \<Rightarrow>
          if cwd options \<noteq> None \<and> chdir_errno os \<noteq> None then Inl (- the (chdir_errno os))
          else if c_true (oflags options AND UV_PROCESS_SETGID P) \<and> setgid_errno os \<noteq> None
            then Inl (- the (setgid_errno os))
          else if c_true (oflags options AND UV_PROCESS_SETUID P) \<and> setuid_errno os \<noteq> None
            then Inl (- the (setuid_errno os))
          else if c_true (oflags options AND UV_PROCESS_RESET_SIGPIPE P) \<and> signal_errno os \<noteq> None
            then Inl (- the (signal_errno os))
          else
            (case exec_errno os of
               Some errno \<Rightarrow> Inl (- errno)
             | None \<Rightarrow> Inr (sys_exec t')))"

subsection \<open>uv_spawn (the Linux build)\<close>

text \<open>
  What the operating system answers to the parent: whether \<^verbatim>\<open>malloc\<close> gave the table
  of pipes, the result of \<^verbatim>\<open>vfork\<close> (the child's pid, or -1 and an errno), the answers
  in the child, and the descriptor table the child starts with (the parent's).
\<close>

record spawn_os =
  malloc_ok :: bool
  fork_res :: int
  fork_errno :: int
  child :: child_os
  fds :: fd_table

text \<open>
  The label \<^verbatim>\<open>error:\<close>. Its loop runs \<^verbatim>\<open>i\<close> over the rows of \<^verbatim>\<open>pipes\<close>, of
  which there are at least three, and reads \<^verbatim>\<open>options->stdio[i]\<close> for each: with
  fewer containers than rows the read at the first index without a container is outside
  the array (\<open>Inl\<close> that index). Otherwise the result is the list of the descriptors
  the loop closes, those of rows whose container is a \<^verbatim>\<open>NULL\<close> stream that are
  not -1.
\<close>

fun spawn_cleanup :: "uv_stdio_container_t list \<Rightarrow> (int \<times> int) list \<Rightarrow> nat \<Rightarrow> nat + int list" where
  "spawn_cleanup containers [] i = Inr []"
| "spawn_cleanup [] (row # pipes) i = Inl i"
| "spawn_cleanup (c # containers) (row # pipes) i =
     (case spawn_cleanup containers pipes (Suc i) of
        Inl j \<Rightarrow> Inl j
      | Inr closed \<Rightarrow>
          Inr ((if c = UV_STREAM None then filter (\<lambda>f. f \<noteq> -1) [fst row, snd row] else [])
               @ closed))"

text \<open>
  How a call of \<^verbatim>\<open>uv_spawn\<close> ends: it returns, or it reads
  \<^verbatim>\<open>options->stdio[i]\<close> outside the array, after which nothing is defined.
\<close>

datatype 'a spawn_run = Spawn_returns 'a | Stdio_read_outside nat

text \<open>
  Leaving through \<^verbatim>\<open>error:\<close> with the result \<open>res\<close>. The descriptors closed are
  the parent's, whose table is not part of the result.
\<close>

definition spawn_error ::
  "uv_stdio_container_t list \<Rightarrow> (int \<times> int) list \<Rightarrow> 'a \<Rightarrow> 'a spawn_run" where
  "spawn_error containers pipes res =
     (case spawn_cleanup containers pipes 0 of
        Inl i \<Rightarrow> Stdio_read_outside i
      | Inr closed \<Rightarrow> Spawn_returns res)"

text \<open>
  The result is the value returned, the loop's queues, the handle, and what became of
  the child when there was one. The handle is linked into its queue by address; the model
  inserts the handle as the function leaves it (with \<^verbatim>\<open>pid\<close> and \<^verbatim>\<open>exit_cb\<close> set).
  A failed \<^verbatim>\<open>malloc\<close> returns at once; a failure of
  \<^verbatim>\<open>uv__process_init_stdio\<close> or of \<^verbatim>\<open>vfork\<close> leaves through \<^verbatim>\<open>error:\<close>; an
  error in the child is returned after the handle's fields are set, not through
  \<^verbatim>\<open>error:\<close>.
\<close>

definition uv_spawn ::
  "process_consts \<Rightarrow> process_handles \<Rightarrow> uv_process_t \<Rightarrow> uv_process_options_t \<Rightarrow> spawn_os
     \<Rightarrow> (int \<times> process_handles \<times> uv_process_t \<times> (int + fd_table) option) spawn_run" where
  "uv_spawn P handles process options os =
     (let process = process\<lparr>active := False\<rparr>;
          count = (if stdio_count options < 3 then 3 else stdio_count options)
      in if \<not> malloc_ok os then Spawn_returns (- ENOMEM, handles, process, None)
      else
        (case spawn_init_stdio (stdio options) (replicate (nat count) (-1, -1)) of
           (err, pipes) \<Rightarrow>
             if err \<noteq> 0 then spawn_error (stdio options) pipes (err, handles, process, None)
             else
               (let process = process\<lparr>status := 0\<rparr> in
                if fork_res os = -1
                then spawn_error (stdio options) pipes (- fork_errno os, handles, process, None)
                else
                  (let result = uv__process_child_init P options pipes (child os) (fds os);
                       exec_errorno = (case result of Inl err \<Rightarrow> err | Inr t \<Rightarrow> 0);
                       process' = process\<lparr>pid := fork_res os, exit_cb := opt_exit_cb options,
                                           active := (exec_errorno = 0)\<rparr>
                   in Spawn_returns
                        (exec_errorno,
                         (if exec_errorno = 0
                          then QUEUE_INSERT_TAIL handles
                                 (uv__process_queue handles (fork_res os)) process'
                          else handles),
                         process', Some result)))))"

section \<open>Windows processes (src/win/process.c)\<close>

subsection \<open>The process handle\<close>



subsection \<open>uv_spawn\<close>





subsection \<open>The exit notification\<close>



section \<open>Windows argument and environment marshalling (src/win/process.c)\<close>

text \<open>
  C strings are lists of characters without the terminating null; a wide character is
  modelled by a character, since the code only compares them with ASCII constants.
  \<^verbatim>\<open>uv_utf8_to_utf16\<close> is a parameter \<open>utf16\<close> of the functions that call it: it gives
  the converted string, or \<open>None\<close> when it returns 0.
\<close>

subsection \<open>quote_cmd_arg\<close>

text \<open>\<^verbatim>\<open>wcspbrk(source, accept) != NULL\<close>: some character of \<open>source\<close> is in \<open>accept\<close>.\<close>

definition wcspbrk :: "string \<Rightarrow> string \<Rightarrow> bool" where
  "wcspbrk source accept = list_ex (\<lambda>c. c \<in> set accept) source"

text \<open>
  The loop \<^verbatim>\<open>for (i = len; i > 0; --i)\<close> runs over the characters of the source from the
  last to the first; the result is what it writes, in the order written.
\<close>

fun quote_loop :: "string \<Rightarrow> bool \<Rightarrow> string" where
  "quote_loop [] quote_hit = []"
| "quote_loop (c # cs) quote_hit =
     (if quote_hit \<and> c = CHR 0x5C then c # CHR 0x5C # quote_loop cs quote_hit
      else if c = CHR 0x22 then c # CHR 0x5C # quote_loop cs True
      else c # quote_loop cs False)"

text \<open>The characters the function appends to the target.\<close>

definition quote_cmd_arg :: "string \<Rightarrow> string" where
  "quote_cmd_arg source =
     (if length source = 0 then []
      else if \<not> wcspbrk source [CHR 0x20, CHR 0x09, CHR 0x22] then source
      else if \<not> wcspbrk source [CHR 0x22, CHR 0x5C] then [CHR 0x22] @ source @ [CHR 0x22]
      else [CHR 0x22] @ rev (quote_loop (rev source) True) @ [CHR 0x22])"

subsection \<open>make_program_args\<close>

text \<open>
  The result of \<^verbatim>\<open>make_program_args\<close>: the command line, as the null-terminated
  string that \<^verbatim>\<open>dst\<close> holds; \<^verbatim>\<open>NULL\<close> after a failed conversion; or, for an empty
  argument vector, a buffer into which nothing was written, not even a terminator.
\<close>

datatype cmdline = Cmdline string | Cmdline_NULL | Cmdline_unterminated

text \<open>
  The second loop over the arguments: what is written to \<^verbatim>\<open>dst\<close>, up to the
  terminator. After each argument comes a space, or the terminating null after the last.
\<close>

fun program_args_loop :: "(string \<Rightarrow> string option) \<Rightarrow> bool \<Rightarrow> string list \<Rightarrow> string option" where
  "program_args_loop utf16 verbatim_arguments [] = Some []"
| "program_args_loop utf16 verbatim_arguments (arg # rest) =
     (case utf16 arg of
        None \<Rightarrow> None
      | Some buffer \<Rightarrow>
          (let written = (if verbatim_arguments then buffer else quote_cmd_arg buffer) in
           if rest = [] then Some written
           else (case program_args_loop utf16 verbatim_arguments rest of
                   None \<Rightarrow> None
                 | Some following \<Rightarrow> Some (written @ [CHR 0x20] @ following))))"

definition make_program_args :: "(string \<Rightarrow> string option) \<Rightarrow> string list \<Rightarrow> bool \<Rightarrow> cmdline" where
  "make_program_args utf16 args' verbatim_arguments =
     (if args' = [] then Cmdline_unterminated
      else (case program_args_loop utf16 verbatim_arguments args' of
              None \<Rightarrow> Cmdline_NULL
            | Some dst \<Rightarrow> Cmdline dst))"

subsection \<open>CommandLineToArgvW\<close>

text \<open>
  The parsing rules of the Windows function \<^verbatim>\<open>CommandLineToArgvW\<close>, as Microsoft
  documents them; the function belongs to the operating system, not to this program.
  Arguments are separated by spaces and tabs outside quotes. \<open>2n\<close> backslashes followed
  by a quotation mark give \<open>n\<close> backslashes and the mark switches the in-quotes mode;
  \<open>2n + 1\<close> backslashes followed by a quotation mark give \<open>n\<close> backslashes and a
  literal mark; backslashes not followed by a quotation mark stand for themselves. The
  parser state is: in quotes or not, the number of backslashes of the current run, the
  argument read so far, and whether an argument has begun. These rules are for the
  arguments after the first.
\<close>

fun parse_cmdline :: "string \<Rightarrow> bool \<Rightarrow> nat \<Rightarrow> string \<Rightarrow> bool \<Rightarrow> string list" where
  "parse_cmdline [] in_quotes nb cur begun =
     (if begun then [cur @ replicate nb (CHR 0x5C)] else [])"
| "parse_cmdline (c # cs) in_quotes nb cur begun =
     (if c = CHR 0x5C then parse_cmdline cs in_quotes (Suc nb) cur True
      else if c = CHR 0x22 then
        (if even nb
         then parse_cmdline cs (\<not> in_quotes) 0 (cur @ replicate (nb div 2) (CHR 0x5C)) True
         else parse_cmdline cs in_quotes 0
                (cur @ replicate (nb div 2) (CHR 0x5C) @ [CHR 0x22]) True)
      else if (c = CHR 0x20 \<or> c = CHR 0x09) \<and> \<not> in_quotes then
        (if begun then (cur @ replicate nb (CHR 0x5C)) # parse_cmdline cs False 0 [] False
         else parse_cmdline cs False 0 [] False)
      else parse_cmdline cs in_quotes 0 (cur @ replicate nb (CHR 0x5C) @ [c]) True)"

text \<open>
  The first argument is the program name and is read by a rule of its own, in which the
  backslash is an ordinary character: when the line begins with a quotation mark, the
  name is everything up to the next quotation mark, otherwise everything up to the first
  space or tab, so a line that begins with white space has an empty first argument. The
  result is the name and the rest of the line. For the empty line the function gives the
  path \<open>exe\<close> of the running program.
\<close>

definition program_name :: "string \<Rightarrow> string \<times> string" where
  "program_name line =
     (if line \<noteq> [] \<and> hd line = CHR 0x22
      then (takeWhile (\<lambda>c. c \<noteq> CHR 0x22) (tl line),
            drop 1 (dropWhile (\<lambda>c. c \<noteq> CHR 0x22) (tl line)))
      else (takeWhile (\<lambda>c. c \<noteq> CHR 0x20 \<and> c \<noteq> CHR 0x09) line,
            dropWhile (\<lambda>c. c \<noteq> CHR 0x20 \<and> c \<noteq> CHR 0x09) line))"

definition CommandLineToArgvW :: "string \<Rightarrow> string \<Rightarrow> string list" where
  "CommandLineToArgvW exe line =
     (if line = [] then [exe]
      else (case program_name line of
              (name, rest) \<Rightarrow> name # parse_cmdline rest False 0 [] False))"

subsection \<open>make_program_env\<close>

text \<open>
  A required variable, as the macro \<^verbatim>\<open>E_V(str)\<close> builds it: the narrow name with
  \<^verbatim>\<open>=\<close> appended, the wide name, and \<^verbatim>\<open>sizeof(str)\<close>, which is the length of the
  name plus one.
\<close>

record env_var_t =
  narrow :: string
  wide :: string
  len :: nat
  supplied :: bool
  value_len :: nat

definition E_V :: "string \<Rightarrow> env_var_t" where
  "E_V str = \<lparr>narrow = str @ ''='', wide = str, len = length str + 1, supplied = False,
              value_len = 0\<rparr>"

definition required_vars :: "env_var_t list" where
  "required_vars = [E_V ''SYSTEMROOT'', E_V ''SYSTEMDRIVE'', E_V ''TEMP'']"

text \<open>
  \<^verbatim>\<open>_strnicmp(a, b, n) == 0\<close>: the first \<open>n\<close> characters agree when letters are
  compared without case; a string that ends earlier agrees only with a string that ends
  at the same place.
\<close>

definition tolower :: "char \<Rightarrow> char" where
  "tolower c =
     (if (65::nat) \<le> of_char c \<and> of_char c \<le> (90::nat) then char_of (of_char c + (32::nat))
      else c)"

definition strnicmp_eq :: "string \<Rightarrow> string \<Rightarrow> nat \<Rightarrow> bool" where
  "strnicmp_eq a b n = (map tolower (take n a) = map tolower (take n b))"

fun check_required_vars_contains_var :: "env_var_t list \<Rightarrow> string \<Rightarrow> env_var_t list" where
  "check_required_vars_contains_var [] var = []"
| "check_required_vars_contains_var (r # required) var =
     (if strnicmp_eq (narrow r) var (len r) then r\<lparr>supplied := True\<rparr> # required
      else r # check_required_vars_contains_var required var)"

text \<open>
  \<^verbatim>\<open>GetEnvironmentVariableW(name, buffer, size)\<close> on the current process's environment
  \<open>penv\<close>, as documented: 0 when the variable does not exist; the size needed, with the
  terminator, when the buffer is too small; otherwise the value is stored and its length
  without the terminator is returned.
\<close>

definition GetEnvironmentVariableW ::
  "(string \<Rightarrow> string option) \<Rightarrow> string \<Rightarrow> nat \<Rightarrow> nat \<times> string option" where
  "GetEnvironmentVariableW penv name size' =
     (case penv name of
        None \<Rightarrow> (0, None)
      | Some v \<Rightarrow> if size' < length v + 1 then (length v + 1, None) else (length v, Some v))"

text \<open>The result: the block, \<^verbatim>\<open>NULL\<close> after a failed conversion, or
  \<^verbatim>\<open>uv_fatal_error\<close>.\<close>

datatype env_block = Env_block string | Env_NULL | Env_fatal

text \<open>The first loop: every caller string is checked against the required variables.\<close>

fun env_check_loop :: "env_var_t list \<Rightarrow> string list \<Rightarrow> env_var_t list" where
  "env_check_loop required [] = required"
| "env_check_loop required (e # env') =
     env_check_loop (check_required_vars_contains_var required e) env'"

text \<open>The second loop: the sizes of the values to inject; \<open>None\<close> is the fatal error.\<close>

fun env_size_loop :: "(string \<Rightarrow> string option) \<Rightarrow> env_var_t list \<Rightarrow> env_var_t list option" where
  "env_size_loop penv [] = Some []"
| "env_size_loop penv (r # required) =
     (if \<not> supplied r then
        (let var_size = fst (GetEnvironmentVariableW penv (wide r) 0) in
         if var_size = 0 then None
         else (case env_size_loop penv required of
                 None \<Rightarrow> None
               | Some rs \<Rightarrow> Some (r\<lparr>value_len := var_size\<rparr> # rs)))
      else (case env_size_loop penv required of
              None \<Rightarrow> None
            | Some rs \<Rightarrow> Some (r # rs)))"

text \<open>The third loop: the caller's strings, each with its terminator.\<close>

fun env_copy_loop :: "(string \<Rightarrow> string option) \<Rightarrow> string list \<Rightarrow> string option" where
  "env_copy_loop utf16 [] = Some []"
| "env_copy_loop utf16 (e # env') =
     (case utf16 e of
        None \<Rightarrow> None
      | Some wide_e \<Rightarrow>
          (case env_copy_loop utf16 env' of
             None \<Rightarrow> None
           | Some following \<Rightarrow> Some (wide_e @ [CHR 0x00] @ following)))"

text \<open>The fourth loop: name, \<^verbatim>\<open>=\<close>, value and terminator of each variable to inject.\<close>

fun env_inject_loop :: "(string \<Rightarrow> string option) \<Rightarrow> env_var_t list \<Rightarrow> string option" where
  "env_inject_loop penv [] = Some []"
| "env_inject_loop penv (r # required) =
     (if \<not> supplied r then
        (case GetEnvironmentVariableW penv (wide r) (value_len r) of
           (var_size, v) \<Rightarrow>
             if var_size = 0 then None
             else (case env_inject_loop penv required of
                     None \<Rightarrow> None
                   | Some following \<Rightarrow>
                       Some (wide r @ [CHR ''=''] @ the v @ [CHR 0x00] @ following)))
      else env_inject_loop penv required)"

definition make_program_env ::
  "(string \<Rightarrow> string option) \<Rightarrow> (string \<Rightarrow> string option) \<Rightarrow> string list \<Rightarrow> env_block" where
  "make_program_env utf16 penv env_block =
     (case env_size_loop penv (env_check_loop required_vars env_block) of
        None \<Rightarrow> Env_fatal
      | Some required \<Rightarrow>
          (case env_copy_loop utf16 env_block of
             None \<Rightarrow> Env_NULL
           | Some copied \<Rightarrow>
               (case env_inject_loop penv required of
                  None \<Rightarrow> Env_fatal
                | Some injected \<Rightarrow> Env_block (copied @ injected @ [CHR 0x00]))))"

text \<open>
  How Windows reads an environment block: null-terminated strings, up to the empty
  string. The argument is the text of the current string read so far.
\<close>

fun read_block :: "string \<Rightarrow> string \<Rightarrow> string list" where
  "read_block [] cur = []"
| "read_block (c # cs) cur =
     (if c = CHR 0x00 then (if cur = [] then [] else cur # read_block cs [])
      else read_block cs (cur @ [c]))"

definition block_entries :: "env_block \<Rightarrow> string list" where
  "block_entries b = (case b of Env_block s \<Rightarrow> read_block s [] | _ \<Rightarrow> [])"

text \<open>Whether an environment string names a required variable, as the code decides it.\<close>

definition names_var :: "string \<Rightarrow> string \<Rightarrow> bool" where
  "names_var name e = strnicmp_eq (name @ ''='') e (length name + 1)"

text \<open>The required variables with given \<^verbatim>\<open>supplied\<close> marks.\<close>

definition required_marked :: "bool \<Rightarrow> bool \<Rightarrow> bool \<Rightarrow> env_var_t list" where
  "required_marked a b c =
     [(E_V ''SYSTEMROOT'')\<lparr>supplied := a\<rparr>, (E_V ''SYSTEMDRIVE'')\<lparr>supplied := b\<rparr>,
      (E_V ''TEMP'')\<lparr>supplied := c\<rparr>]"

text \<open>
  The spec's words for the injected part: for each required variable the caller did not
  supply, in the order SYSTEMROOT, SYSTEMDRIVE, TEMP, the string \<^verbatim>\<open>NAME=value\<close> with
  the current process's value.
\<close>

definition caller_supplies :: "string list \<Rightarrow> string \<Rightarrow> bool" where
  "caller_supplies env_block name = list_ex (names_var name) env_block"

definition injected_entries :: "(string \<Rightarrow> string option) \<Rightarrow> string list \<Rightarrow> string list" where
  "injected_entries penv env_block =
     map (\<lambda>name. name @ ''='' @ the (penv name))
       (filter (\<lambda>name. \<not> caller_supplies env_block name) [''SYSTEMROOT'', ''SYSTEMDRIVE'', ''TEMP''])"

section \<open>Windows executable search (src/win/process.c)\<close>

subsection \<open>search_path_join_test\<close>

text \<open>
  \<^verbatim>\<open>GetFileAttributesW\<close> is a parameter \<open>fs\<close>: the attributes of a path, or \<open>None\<close>
  for \<^verbatim>\<open>INVALID_FILE_ATTRIBUTES\<close>. The two attribute bits are those of the Windows
  headers.
\<close>

definition FILE_ATTRIBUTE_DIRECTORY :: "32 word" where
  "FILE_ATTRIBUTE_DIRECTORY = 0x10"

definition FILE_ATTRIBUTE_REPARSE_POINT :: "32 word" where
  "FILE_ATTRIBUTE_REPARSE_POINT = 0x400"

text \<open>\<^verbatim>\<open>wcsncpy\<close> copies \<open>n\<close> characters and pads with nulls when the source is shorter.\<close>

definition wcsncpy :: "string \<Rightarrow> nat \<Rightarrow> string" where
  "wcsncpy src n = take n src @ replicate (n - length src) (CHR 0x00)"

text \<open>\<^verbatim>\<open>wcsrchr(L"\\/:", c) != NULL\<close>; the search also finds the terminator of the
  literal, so a null counts.\<close>

definition is_path_sep :: "char \<Rightarrow> bool" where
  "is_path_sep c = (c = CHR 0x5C \<or> c = CHR ''/'' \<or> c = CHR '':'' \<or> c = CHR 0x00)"

text \<open>
  The first part of the function: how the directory and the length of the current
  directory to use are adjusted. \<open>dir\<close> is the slice of \<open>dir_len\<close> characters.
\<close>

definition join_adjust :: "string \<Rightarrow> string \<Rightarrow> string \<times> nat" where
  "join_adjust dir cwd' =
     (if length dir \<ge> 1 \<and> (dir ! 0 = CHR ''/'' \<or> dir ! 0 = CHR 0x5C) then (dir, 2)
      else if length dir \<ge> 2 \<and> dir ! 1 = CHR '':'' \<and>
              (length dir < 3 \<or> (dir ! 2 \<noteq> CHR ''/'' \<and> dir ! 2 \<noteq> CHR 0x5C)) then
        (if length cwd' < 2 \<or> \<not> strnicmp_eq cwd' dir 2 then (dir, 0)
         else (drop 2 dir, length cwd'))
      else if length dir > 2 \<and> dir ! 1 = CHR '':'' then (dir, 0)
      else (dir, length cwd'))"

text \<open>The buffer the function composes, read as a string up to its first null.\<close>

definition join_result :: "string \<Rightarrow> string \<Rightarrow> string \<Rightarrow> string \<Rightarrow> string" where
  "join_result dir name ext cwd' =
     (case join_adjust dir cwd' of (dir, cwd_len) \<Rightarrow>
        (let result = wcsncpy cwd' cwd_len;
             result = (if cwd_len \<noteq> 0 \<and> \<not> is_path_sep (last result)
                       then result @ [CHR 0x5C] else result);
             result = result @ dir;
             result = (if length dir \<noteq> 0 \<and> \<not> is_path_sep (last result)
                       then result @ [CHR 0x5C] else result);
             result = result @ name;
             result = (if length ext \<noteq> 0
                       then (if length name \<noteq> 0 \<and> last result \<noteq> CHR ''.''
                             then result @ [CHR ''.''] else result) @ ext
                       else result)
         in takeWhile (\<lambda>c. c \<noteq> CHR 0x00) result))"

definition search_path_join_test ::
  "(string \<Rightarrow> 32 word option) \<Rightarrow> string \<Rightarrow> string \<Rightarrow> string \<Rightarrow> string \<Rightarrow> string option" where
  "search_path_join_test fs dir name ext cwd' =
     (let result = join_result dir name ext cwd' in
      case fs result of
        None \<Rightarrow> None
      | Some attrs \<Rightarrow>
          if \<not> c_true (attrs AND (FILE_ATTRIBUTE_DIRECTORY OR FILE_ATTRIBUTE_REPARSE_POINT))
          then Some result else None)"

subsection \<open>path_search_walk_ext\<close>

definition path_search_walk_ext ::
  "(string \<Rightarrow> 32 word option) \<Rightarrow> string \<Rightarrow> string \<Rightarrow> string \<Rightarrow> bool \<Rightarrow> string option" where
  "path_search_walk_ext fs dir name cwd' name_has_ext =
     (case (if name_has_ext then search_path_join_test fs dir name [] cwd' else None) of
        Some result \<Rightarrow> Some result
      | None \<Rightarrow>
          (case search_path_join_test fs dir name ''com'' cwd' of
             Some result \<Rightarrow> Some result
           | None \<Rightarrow> search_path_join_test fs dir name ''exe'' cwd'))"

subsection \<open>search_path\<close>

text \<open>
  What a search gives: the path found, \<^verbatim>\<open>NULL\<close>, or a call of the join with a negative
  directory length, whose copies have no defined behaviour.
\<close>

datatype search_result = Found string | Not_found | Negative_length

text \<open>
  Positions in \<^verbatim>\<open>path\<close> are indices; the terminator is at index \<open>length path\<close>.
  \<open>skip_separator\<close> is \<^verbatim>\<open>if (dir_end != path) dir_end++\<close>, and \<open>slice_end\<close> the position
  of the next \<^verbatim>\<open>;\<close> from \<open>dir_start\<close> on, or of the terminator.
\<close>

definition skip_separator :: "nat \<Rightarrow> nat" where
  "skip_separator dir_end = (if dir_end \<noteq> 0 then dir_end + 1 else dir_end)"

definition slice_end :: "string \<Rightarrow> nat \<Rightarrow> nat" where
  "slice_end path dir_start =
     dir_start + length (takeWhile (\<lambda>c. c \<noteq> CHR '';'') (drop dir_start path))"

definition is_quote :: "char \<Rightarrow> bool" where
  "is_quote c = (c = CHR 0x22 \<or> c = CHR 0x27)"

text \<open>
  "Adjust if the path is quoted": \<open>dir_path\<close> and \<open>dir_len\<close> after the two tests, for
  the slice from \<open>dir_start\<close> to \<open>dir_end\<close>. The second test reads the character at
  \<open>dir_path + dir_len - 1\<close>.
\<close>

definition adjust_quoted :: "string \<Rightarrow> nat \<Rightarrow> nat \<Rightarrow> nat \<times> int" where
  "adjust_quoted path dir_start dir_end =
     (let dir_path = dir_start;
          dir_len = int dir_end - int dir_start;
          (dir_path, dir_len) = (if is_quote (path ! dir_path) then (dir_path + 1, dir_len - 1)
                                 else (dir_path, dir_len));
          dir_len = (if is_quote (path ! nat (int dir_path + dir_len - 1)) then dir_len - 1
                     else dir_len)
      in (dir_path, dir_len))"

text \<open>
  The loop \<^verbatim>\<open>while (result == NULL)\<close> over the entries of \<^verbatim>\<open>path\<close>, from the position
  \<open>dir_end\<close>. \<open>None\<close> is a loop that does not end.
\<close>

partial_function (option) search_path_loop ::
  "(string \<Rightarrow> 32 word option) \<Rightarrow> string \<Rightarrow> string \<Rightarrow> string \<Rightarrow> bool \<Rightarrow> nat
     \<Rightarrow> search_result option" where
  "search_path_loop fs file' cwd' path name_has_ext dir_end =
     (if dir_end \<ge> length path then Some Not_found
      else if slice_end path (skip_separator dir_end) - skip_separator dir_end = 0
      then search_path_loop fs file' cwd' path name_has_ext
             (slice_end path (skip_separator dir_end))
      else if snd (adjust_quoted path (skip_separator dir_end)
                    (slice_end path (skip_separator dir_end))) < 0
      then Some Negative_length
      else
        (case path_search_walk_ext fs
                (take (nat (snd (adjust_quoted path (skip_separator dir_end)
                                   (slice_end path (skip_separator dir_end)))))
                   (drop (fst (adjust_quoted path (skip_separator dir_end)
                                   (slice_end path (skip_separator dir_end)))) path))
                file' cwd' name_has_ext of
           Some result \<Rightarrow> Some (Found result)
         | None \<Rightarrow>
             search_path_loop fs file' cwd' path name_has_ext
               (slice_end path (skip_separator dir_end))))"

declare search_path_loop.simps [code]

text \<open>
  The start of the file name: the scan goes back from the end while the character before
  is none of \<^verbatim>\<open>\\<close>, \<^verbatim>\<open>/\<close> and \<^verbatim>\<open>:\<close>.
\<close>

definition file_name_start :: "string \<Rightarrow> nat" where
  "file_name_start file' =
     length file' - length (takeWhile (\<lambda>c. c \<noteq> CHR 0x5C \<and> c \<noteq> CHR ''/'' \<and> c \<noteq> CHR '':'')
                               (rev file'))"

text \<open>\<^verbatim>\<open>dot = wcschr(file_name_start, L'.')\<close> and
  \<^verbatim>\<open>name_has_ext = (dot != NULL && dot[1] != L'\0')\<close>.\<close>

definition name_has_ext_of :: "string \<Rightarrow> bool" where
  "name_has_ext_of name =
     (case dropWhile (\<lambda>c. c \<noteq> CHR ''.'') name of [] \<Rightarrow> False | dot # after \<Rightarrow> after \<noteq> [])"

definition search_path ::
  "(string \<Rightarrow> 32 word option) \<Rightarrow> string \<Rightarrow> string \<Rightarrow> string \<Rightarrow> search_result option" where
  "search_path fs file' cwd' path =
     (if length file' = 0 \<or> (length file' = 1 \<and> file' ! 0 = CHR ''.'') then Some Not_found
      else
        (let start = file_name_start file';
             name_has_ext = name_has_ext_of (drop start file')
         in if start \<noteq> 0 then
              (case path_search_walk_ext fs (take start file') (drop start file') cwd'
                      name_has_ext of
                 Some result \<Rightarrow> Some (Found result)
               | None \<Rightarrow> Some Not_found)
            else
              (case path_search_walk_ext fs [] file' cwd' name_has_ext of
                 Some result \<Rightarrow> Some (Found result)
               | None \<Rightarrow> search_path_loop fs file' cwd' path name_has_ext 0)))"

text \<open>
  The search in the spec's words: the entries of \<^verbatim>\<open>PATH\<close> are its pieces between
  semicolons; empty entries are skipped; of an entry, a quotation mark or apostrophe at
  the start and one at the end are left out; the directories are tried in order, and the
  first in which the file is found gives the result.
\<close>

fun split_semicolons :: "string \<Rightarrow> string \<Rightarrow> string list" where
  "split_semicolons [] cur = [cur]"
| "split_semicolons (c # cs) cur =
     (if c = CHR '';'' then cur # split_semicolons cs [] else split_semicolons cs (cur @ [c]))"

definition trim_entry :: "string \<Rightarrow> string" where
  "trim_entry e =
     (let e' = (if is_quote (hd e) then tl e else e)
      in if is_quote (last e) then butlast e' else e')"

definition path_directories :: "string \<Rightarrow> string list" where
  "path_directories path = map trim_entry (filter (\<lambda>e. e \<noteq> []) (split_semicolons path []))"

fun search_directories ::
  "(string \<Rightarrow> 32 word option) \<Rightarrow> string list \<Rightarrow> string \<Rightarrow> string \<Rightarrow> bool \<Rightarrow> search_result" where
  "search_directories fs [] file' cwd' name_has_ext = Not_found"
| "search_directories fs (dir # dirs) file' cwd' name_has_ext =
     (case path_search_walk_ext fs dir file' cwd' name_has_ext of
        Some result \<Rightarrow> Found result
      | None \<Rightarrow> search_directories fs dirs file' cwd' name_has_ext)"

text \<open>A file name has no directory part when it holds none of \<^verbatim>\<open>\\<close>, \<^verbatim>\<open>/\<close>, \<^verbatim>\<open>:\<close>.\<close>

definition no_directory_part :: "string \<Rightarrow> bool" where
  "no_directory_part file' =
     (\<not> list_ex (\<lambda>c. c = CHR 0x5C \<or> c = CHR ''/'' \<or> c = CHR '':'') file')"

subsection \<open>Concrete inputs\<close>

text \<open>Single-bit values for the header constants, and a pipe as \<^verbatim>\<open>uv__stream_init\<close> leaves it.\<close>

definition K0 :: pipe_consts where
  "K0 = \<lparr>UV_PIPE_IPC = 1, UV_PIPE_SPAWN_SAFE = 2, UV_PIPE_READABLE = 4, UV_PIPE_WRITEABLE = 8,
          UV_HANDLE_PIPE_IPC = 0x80, UV_HANDLE_PIPE_SPAWN_SAFE = 0x100,
          UV_STREAM_READABLE = 0x20, UV_STREAM_WRITABLE = 0x40,
          UV__POLLIN = 1, UV__POLLOUT = 4, UV_CLOSING = 1, UV_CLOSED = 2\<rparr>"

definition fresh_pipe :: uv_pipe_t where
  "fresh_pipe = \<lparr>flags = 0, close_cb = None,
                  io_watcher = \<lparr>fd = -1, cb = uv__stream_io, pevents = 0, pending = False\<rparr>,
                  pipe_fname = None, shutdown_req = None, connect_req = None,
                  connection_cb = 0, accepted_fd = -1, delayed_error = 0\<rparr>"

text \<open>
  Two children on the one queue of a loop, and a run of the reaper in which
  \<^verbatim>\<open>waitpid\<close> finds child 10 still running, is interrupted once for child 12 and then
  reports that it exited with status 3, and reports child 14 killed by signal 9.
\<close>

definition child10 :: uv_process_t where
  "child10 = \<lparr>pid = 10, status = 0, exit_cb = Some 1, active = True\<rparr>"

definition child12 :: uv_process_t where
  "child12 = \<lparr>pid = 12, status = 0, exit_cb = Some 2, active = True\<rparr>"

definition child14 :: uv_process_t where
  "child14 = \<lparr>pid = 14, status = 0, exit_cb = Some 3, active = True\<rparr>"

definition waitpid0 :: "int \<Rightarrow> wait_answer list" where
  "waitpid0 p = (if p = 12 then [(-1, EINTR, 0), (12, 0, 0x0300)]
                 else if p = 14 then [(14, 0, 9)]
                 else [(0, 0, 0)])"

text \<open>
  Spawn inputs: flag bits, a terminal on descriptors 0 to 2, options with no stdio
  containers, a child in which every call succeeds, and a handle before the spawn.
\<close>

definition P0 :: process_consts where
  "P0 = \<lparr>UV_PROCESS_SETUID = 1, UV_PROCESS_SETGID = 2, UV_PROCESS_DETACHED = 8,
          UV_PROCESS_RESET_SIGPIPE = 32\<rparr>"

definition tty :: fd_entry where
  "tty = \<lparr>target = ''/dev/tty'', mode = O_RDWR, cloexec = False\<rparr>"

definition options0 :: uv_process_options_t where
  "options0 = \<lparr>opt_file = ''does_not_exist_xyz'', args = [''does_not_exist_xyz''], env = None,
               cwd = None, oflags = 0, stdio = [], uid = 0, gid = 0, opt_exit_cb = Some 1\<rparr>"

definition child_ok :: child_os where
  "child_ok = \<lparr>open_errno = (\<lambda>n. None), chdir_errno = None, setgid_errno = None,
               setuid_errno = None, signal_errno = None, exec_errno = None\<rparr>"

definition process0 :: uv_process_t where
  "process0 = \<lparr>pid = 0, status = 0, exit_cb = None, active = False\<rparr>"


definition spawn_os_ok :: spawn_os where
  "spawn_os_ok = \<lparr>malloc_ok = True, fork_res = 42, fork_errno = 0, child = child_ok,
                   fds = [Some tty, Some tty, Some tty]\<rparr>"


definition child42 :: uv_process_t where
  "child42 = \<lparr>pid = 42, status = 0, exit_cb = Some 1, active = True\<rparr>"

definition devnull :: "open_mode \<Rightarrow> fd_entry" where
  "devnull m = \<lparr>target = ''/dev/null'', mode = m, cloexec = False\<rparr>"



text \<open>The environment of a current process, and a caller environment that names TEMP.\<close>

definition penv0 :: "string \<Rightarrow> string option" where
  "penv0 name = (if name = ''SYSTEMROOT'' then Some ''C:/Windows''
                 else if name = ''SYSTEMDRIVE'' then Some ''C:''
                 else if name = ''TEMP'' then Some ''C:/Temp''
                 else None)"

definition env0 :: "string list" where
  "env0 = [''A=B'', ''temp=x'']"

text \<open>
  A file system in which only \<^verbatim>\<open>C:/bin\x.exe\<close> exists (an ordinary file), and two
  values of \<^verbatim>\<open>PATH\<close>: one whose only entry has a quotation mark at the start and none
  at the end, and one with an empty entry and an entry between a quotation mark and an
  apostrophe.
\<close>

definition fs0 :: "string \<Rightarrow> 32 word option" where
  "fs0 p = (if p = ''C:/bin'' @ [CHR 0x5C] @ ''x.exe'' then Some 0x20 else None)"

definition path_unmatched :: string where
  "path_unmatched = [CHR 0x22] @ ''C:/bin''"

definition path_mixed :: string where
  "path_mixed = ''D:/a;;'' @ [CHR 0x22] @ ''C:/bin'' @ [CHR 0x27]"

section \<open>Properties\<close>

subsection \<open>uv_pipe_bind\<close>

text \<open>
  C7. When a pipe bind on POSIX gets as far as \<^verbatim>\<open>bind(2)\<close> (the handle is unbound, the
  name was copied, the socket was created) and \<^verbatim>\<open>bind(2)\<close> fails, the value returned
  to the caller is \<open>-EACCES\<close> if the errno is \<open>ENOENT\<close>, and the negated errno,
  unchanged, for every other errno. The handle is left as it was.
\<close>

theorem uv_pipe_bind_errno:
  assumes "uv__stream_fd handle < 0"
    and "strdup_ok os"
    and "socket_res os \<ge> 0"
    and "bind_errno os = Some e"
  shows "fst (uv_pipe_bind handle name os) = (if e = ENOENT then - EACCES else - e)
         \<and> fst (snd (uv_pipe_bind handle name os)) = handle"
  using assms by (simp add: uv_pipe_bind_def Let_def)

theorem uv_pipe_bind_errno_witness:
  "uv__stream_fd fresh_pipe < 0
   \<and> fst (uv_pipe_bind fresh_pipe ''/nodir/sock''
            \<lparr>strdup_ok = True, socket_res = 7, bind_errno = Some ENOENT\<rparr>) = - EACCES
   \<and> fst (uv_pipe_bind fresh_pipe ''/tmp/sock''
            \<lparr>strdup_ok = True, socket_res = 7, bind_errno = Some 98\<rparr>) = - 98"
  using uv_pipe_bind_errno [of fresh_pipe
      "\<lparr>strdup_ok = True, socket_res = 7, bind_errno = Some ENOENT\<rparr>" ENOENT "''/nodir/sock''"]
    uv_pipe_bind_errno [of fresh_pipe
      "\<lparr>strdup_ok = True, socket_res = 7, bind_errno = Some 98\<rparr>" 98 "''/tmp/sock''"]
  by (simp add: uv__stream_fd_def fresh_pipe_def ENOENT_def)

subsection \<open>uv__pipe_accept\<close>

text \<open>
  C10. In the POSIX accept watcher, when \<^verbatim>\<open>accept\<close> fails (\<open>sockfd = -1\<close>) with an
  errno other than \<open>EAGAIN\<close> and \<open>EWOULDBLOCK\<close>, the connection callback is called once,
  with the negated errno, on the pipe exactly as it was (so the watcher wrote nothing to
  the \<open>accepted_fd\<close> slot), and nothing is done after it. When the errno is \<open>EAGAIN\<close> or
  \<open>EWOULDBLOCK\<close>, no callback is called and the pipe, with its watcher and the events
  it is started for, is unchanged.
\<close>

theorem uv__pipe_accept_failure:
  "(errno \<noteq> EAGAIN \<and> errno \<noteq> EWOULDBLOCK \<longrightarrow>
      uv__pipe_accept K user pipe (-1) errno =
        (user pipe (- errno), [Connection_cb (connection_cb pipe) (- errno)]))
   \<and> (errno = EAGAIN \<or> errno = EWOULDBLOCK \<longrightarrow>
      uv__pipe_accept K user pipe (-1) errno = (pipe, []))"
  by (simp add: uv__pipe_accept_def)

theorem uv__pipe_accept_failure_witness:
  "(9::int) \<noteq> EAGAIN \<and> (9::int) \<noteq> EWOULDBLOCK
   \<and> uv__pipe_accept K0 (\<lambda>p s. p) fresh_pipe (-1) 9 = (fresh_pipe, [Connection_cb 0 (- 9)])
   \<and> uv__pipe_accept K0 (\<lambda>p s. p) fresh_pipe (-1) EAGAIN = (fresh_pipe, [])"
  using uv__pipe_accept_failure [of 9 K0 "\<lambda>p s. p" fresh_pipe]
    uv__pipe_accept_failure [of EAGAIN K0 "\<lambda>p s. p" fresh_pipe]
  by (simp add: EAGAIN_def EWOULDBLOCK_def fresh_pipe_def)

subsection \<open>uv_pipe_connect\<close>

text \<open>
  C2. Every call of pipe connect that returns (the socket cannot be created, or
  \<^verbatim>\<open>connect\<close> gives an answer other than \<open>EINTR\<close>) calls no user callback during the
  call. The error of the connect (socket creation, connect or stream open failure; 0 when
  there is none) is stored in the pipe's \<open>delayed_error\<close>, and the request is stored on
  the pipe with the user's callback. When there is an error the watcher is put on the
  loop's pending queue, and only then, so that the loop runs the callback in its next
  iteration. When there is none, the watcher, with its callback unchanged, is started for
  readable and writable events on the pipe's socket (which a new socket has been opened
  as a readable and writable stream), so that the loop runs the callback in the iteration
  in which the connection completes; this part is for a \<^verbatim>\<open>connect\<close>
  that sets a non-zero errno when it fails. The function is \<^verbatim>\<open>void\<close>: nothing is
  returned to the caller.
\<close>

theorem uv_pipe_connect_deferred:
  assumes "(uv__stream_fd handle = -1 \<and> c_socket_res os < 0)
           \<or> connect_loop (connect_answers os) = Some (r, errno)"
  shows "\<exists>req' handle'.
           uv_pipe_connect K req handle name cb' os = Some (req', handle', [])
           \<and> delayed_error handle' = connect_outcome_error handle os r errno
           \<and> connect_req handle' = Some req' \<and> req_cb req' = cb' \<and> req_handle_set req'
           \<and> pending (io_watcher handle') =
               (pending (io_watcher handle) \<or> connect_outcome_error handle os r errno \<noteq> 0)
           \<and> cb (io_watcher handle') = cb (io_watcher handle)
           \<and> uv__stream_fd handle' =
               (if uv__stream_fd handle = -1 \<and> 0 \<le> c_socket_res os then c_socket_res os
                else uv__stream_fd handle)
           \<and> ((r = -1 \<longrightarrow> errno \<noteq> 0) \<longrightarrow>
                pevents (io_watcher handle') =
                  (if connect_outcome_error handle os r errno = 0
                   then pevents (io_watcher handle) OR (UV__POLLIN K OR UV__POLLOUT K)
                   else pevents (io_watcher handle))
                \<and> flags handle' =
                  (if uv__stream_fd handle = -1 \<and> connect_outcome_error handle os r errno = 0
                   then flags handle OR (UV_STREAM_READABLE K OR UV_STREAM_WRITABLE K)
                   else flags handle))"
  using assms
  by (auto simp: uv_pipe_connect_def connect_body_def connect_outcome_error_def Let_def
      uv__stream_open_def uv__io_feed_def uv__io_start_def uv__stream_fd_def
      split: option.splits prod.splits if_splits)

theorem uv_pipe_connect_deferred_witness:
  "connect_loop [(-1, EINTR), (-1, ENOENT)] = Some (-1, ENOENT)
   \<and> (\<exists>req' handle'.
        uv_pipe_connect K0 \<lparr>req_cb = 0, req_handle_set = False\<rparr> fresh_pipe ''/no/such'' 3
          \<lparr>c_socket_res = 7, connect_answers = [(-1, EINTR), (-1, ENOENT)], c_open_res = 0\<rparr>
          = Some (req', handle', [])
        \<and> delayed_error handle' = - ENOENT \<and> req_cb req' = 3
        \<and> pending (io_watcher handle') \<and> pevents (io_watcher handle') = 0)
   \<and> connect_loop [(-1, EINPROGRESS)] = Some (-1, EINPROGRESS)
   \<and> (\<exists>req' handle'.
        uv_pipe_connect K0 \<lparr>req_cb = 0, req_handle_set = False\<rparr> fresh_pipe ''/tmp/sock'' 3
          \<lparr>c_socket_res = 7, connect_answers = [(-1, EINPROGRESS)], c_open_res = 0\<rparr>
          = Some (req', handle', [])
        \<and> delayed_error handle' = 0 \<and> req_cb req' = 3
        \<and> \<not> pending (io_watcher handle') \<and> pevents (io_watcher handle') = 5
        \<and> uv__stream_fd handle' = 7 \<and> cb (io_watcher handle') = uv__stream_io)"
  using uv_pipe_connect_deferred [of fresh_pipe
      "\<lparr>c_socket_res = 7, connect_answers = [(-1, EINTR), (-1, ENOENT)], c_open_res = 0\<rparr>"
      "-1" ENOENT K0 "\<lparr>req_cb = 0, req_handle_set = False\<rparr>" "''/no/such''" 3]
    uv_pipe_connect_deferred [of fresh_pipe
      "\<lparr>c_socket_res = 7, connect_answers = [(-1, EINPROGRESS)], c_open_res = 0\<rparr>"
      "-1" EINPROGRESS K0 "\<lparr>req_cb = 0, req_handle_set = False\<rparr>" "''/tmp/sock''" 3]
  by (auto simp: connect_outcome_error_def uv__stream_fd_def fresh_pipe_def K0_def
      EINTR_def ENOENT_def EINPROGRESS_def)


subsection \<open>uv_pipe_link\<close>

lemma c_true_not_and: "b \<noteq> - 1 \<Longrightarrow> c_true (NOT (f AND b))"
proof -
  assume b: "b \<noteq> - 1"
  have "f AND b \<noteq> - 1"
    using b by (simp add: and_eq_minus_1_iff)
  then have "NOT (f AND b) \<noteq> 0"
    by (metis bit.double_compl bit.compl_zero)
  then show ?thesis
    by (simp add: c_true_def)
qed

text \<open>
  The tests \<^verbatim>\<open>if (~(flags & UV_PIPE_SPAWN_SAFE))\<close> of the link are true for every
  flag word, since the complement of a masked word is never 0 for a mask that is not all
  ones. Whenever a link succeeds, both descriptors have been put in non-blocking mode,
  whatever the flags of the two pipes are.
\<close>

theorem uv_pipe_link_always_nonblocking:
  assumes K: "UV_PIPE_SPAWN_SAFE K \<noteq> - 1"
    and ret: "uv_pipe_link K read write os = (0, read', write', calls)"
  shows "\<exists>nb fds. hd calls = Socketpair nb fds
           \<and> nonblocking_applied calls (fst fds) \<and> nonblocking_applied calls (snd fds)"
proof -
  have r: "c_true (NOT (flags read AND UV_PIPE_SPAWN_SAFE K))"
    and w: "c_true (NOT (flags write AND UV_PIPE_SPAWN_SAFE K))"
    and rw: "c_true (NOT ((flags read OR flags write) AND UV_PIPE_SPAWN_SAFE K))"
    by (rule c_true_not_and [OF K])+
  have r': "c_true (NOT (flags read) OR NOT (UV_PIPE_SPAWN_SAFE K))"
    and w': "c_true (NOT (flags write) OR NOT (UV_PIPE_SPAWN_SAFE K))"
    and rw': "c_true (NOT (flags read) AND NOT (flags write) OR NOT (UV_PIPE_SPAWN_SAFE K))"
    using r w rw by simp_all
  show ?thesis
    using ret
    by (auto simp: r' w' rw' uv_pipe_link_def link_plain_def link_open_fds_def
        nonblocking_applied_def uv__stream_open_def split: sum.splits if_splits prod.splits)
qed

text \<open>
  C3. The claim is that a link applies non-blocking mode to an end if and only if that
  pipe was not created with SPAWN_SAFE. Here both pipes are created by
  \<^verbatim>\<open>uv_pipe_init\<close> with \<^verbatim>\<open>UV_PIPE_SPAWN_SAFE\<close> (the handle's spawn-safe bit is
  set), the build has no \<^verbatim>\<open>SOCK_NONBLOCK\<close>, and \<^verbatim>\<open>socketpair\<close> gives the
  descriptors 5 and 6: the link succeeds and has called \<^verbatim>\<open>uv__nonblock(fd, 1)\<close> on both
  descriptors all the same.
\<close>

theorem uv_pipe_link_spawn_safe_example:
  "c_true (flags (snd (uv_pipe_init K0 fresh_pipe
     (UV_PIPE_READABLE K0 OR UV_PIPE_SPAWN_SAFE K0))) AND UV_HANDLE_PIPE_SPAWN_SAFE K0)
   \<and> (case uv_pipe_link K0
        (snd (uv_pipe_init K0 fresh_pipe (UV_PIPE_READABLE K0 OR UV_PIPE_SPAWN_SAFE K0)))
        (snd (uv_pipe_init K0 fresh_pipe (UV_PIPE_WRITEABLE K0 OR UV_PIPE_SPAWN_SAFE K0)))
        \<lparr>have_SOCK_NONBLOCK = False, socketpair_nonblock = Inl EINVAL,
         socketpair_plain = Inr (5, 6), open_read_res = 0, open_write_res = 0\<rparr>
      of (ret, read', write', calls) \<Rightarrow>
        ret = 0 \<and> nonblocking_applied calls 5 \<and> nonblocking_applied calls 6)"
  by (simp add: uv_pipe_init_def uv_pipe_link_def link_plain_def link_open_fds_def
      nonblocking_applied_def uv__stream_open_def K0_def fresh_pipe_def c_true_def)

subsection \<open>uv__chld\<close>

lemma WIFEXITED_not_WIFSIGNALED: "WIFEXITED s \<Longrightarrow> \<not> WIFSIGNALED s"
proof -
  assume "WIFEXITED s"
  then have "s AND 0x7f = 0"
    by (simp add: WIFEXITED_def WTERMSIG_def signed_eq_0_iff)
  then show ?thesis
    by (simp add: WIFSIGNALED_def)
qed

lemma chld_scan_Returns:
  "chld_scan w q = Returns (left, pend) \<Longrightarrow>
     left = filter (\<lambda>p. reaped_status w p = None) q \<and>
     pend = map (\<lambda>p. p\<lparr>status := the (reaped_status w p)\<rparr>)
              (filter (\<lambda>p. reaped_status w p \<noteq> None) q)"
proof (induction q arbitrary: left pend)
  case Nil
  then show ?case by simp
next
  case (Cons process q)
  from Cons.prems obtain r errno st where
    wl: "waitpid_loop (w (pid process)) = Some (r, errno, st)"
    by (auto split: option.splits)
  from Cons.prems wl obtain left' pend' where
    rest: "chld_scan w q = Returns (left', pend')"
    by (auto split: if_splits run.splits)
  note IH = Cons.IH [OF rest]
  show ?case
  proof (cases "r \<noteq> 0 \<and> r \<noteq> -1")
    case True
    then have rs: "reaped_status w process = Some st"
      using wl by (simp add: reaped_status_def)
    from Cons.prems wl rest True
    have "left = left'" "pend = process\<lparr>status := st\<rparr> # pend'"
      by (auto split: if_splits)
    with IH rs show ?thesis by simp
  next
    case False
    then have rs: "reaped_status w process = None"
      using wl by (auto simp add: reaped_status_def)
    from Cons.prems wl rest False
    have "left = process # left'" "pend = pend'"
      by (auto split: if_splits)
    with IH rs show ?thesis by simp
  qed
qed

lemma chld_drain_eq:
  "chld_drain pend =
     (map (\<lambda>p. p\<lparr>active := False\<rparr>) pend,
      concat (map (\<lambda>p. case exit_cb p of None \<Rightarrow> []
                | Some f \<Rightarrow> [Exit_cb (pid p) f (chld_exit_status (status p))
                               (chld_term_signal (status p))]) pend))"
  by (induction pend) (auto simp: Let_def split: option.splits)

lemma drain_scan_calls:
  "snd (chld_drain (map (\<lambda>p. p\<lparr>status := the (reaped_status w p)\<rparr>)
              (filter (\<lambda>p. reaped_status w p \<noteq> None) q)))
   = concat (map (exit_calls_of w) q)"
  by (induction q) (auto simp: chld_drain_eq exit_calls_of_def split: option.splits)

lemma chld_queues_Returns:
  "chld_queues w hs = Returns (hs', stopped, calls) \<Longrightarrow>
     hs' = map (filter (\<lambda>p. reaped_status w p = None)) hs \<and>
     calls = concat (map (exit_calls_of w) (concat hs))"
proof (induction hs arbitrary: hs' stopped calls)
  case Nil
  then show ?case by simp
next
  case (Cons h hs)
  from Cons.prems obtain left pend st1 c1 hs1 st2 c2 where
    scan: "chld_scan w h = Returns (left, pend)"
    and drain: "chld_drain pend = (st1, c1)"
    and rest: "chld_queues w hs = Returns (hs1, st2, c2)"
    and res: "hs' = left # hs1" "calls = c1 @ c2"
    by (auto split: run.splits prod.splits)
  from chld_scan_Returns [OF scan] drain drain_scan_calls [of w h]
  have "left = filter (\<lambda>p. reaped_status w p = None) h" "c1 = concat (map (exit_calls_of w) h)"
    by auto
  with Cons.IH [OF rest] res show ?case by simp
qed


lemma chld_scan_total:
  "\<forall>p \<in> set q. \<exists>r e st. waitpid_loop (w (pid p)) = Some (r, e, st) \<and> (r = -1 \<longrightarrow> e = ECHILD)
   \<Longrightarrow> \<exists>res. chld_scan w q = Returns res"
  by (induction q) (auto split: run.splits)

lemma chld_queues_total:
  "\<forall>p \<in> set (concat hs). \<exists>r e st. waitpid_loop (w (pid p)) = Some (r, e, st) \<and> (r = -1 \<longrightarrow> e = ECHILD)
   \<Longrightarrow> \<exists>res. chld_queues w hs = Returns res"
proof (induction hs)
  case Nil
  then show ?case by simp
next
  case (Cons h hs)
  from Cons.prems have h: "\<forall>p \<in> set h. \<exists>r e st.
      waitpid_loop (w (pid p)) = Some (r, e, st) \<and> (r = -1 \<longrightarrow> e = ECHILD)"
    and hs: "\<forall>p \<in> set (concat hs). \<exists>r e st.
      waitpid_loop (w (pid p)) = Some (r, e, st) \<and> (r = -1 \<longrightarrow> e = ECHILD)"
    by simp_all
  from chld_scan_total [OF h] obtain res1 where 1: "chld_scan w h = Returns res1" by blast
  from Cons.IH [OF hs] obtain res2 where 2: "chld_queues w hs = Returns res2" by blast
  show ?case
    using 1 2 by (auto split: prod.splits)
qed

lemma exit_calls_of_in:
  "c \<in> set (exit_calls_of w p) \<longleftrightarrow>
     (\<exists>s g. reaped_status w p = Some s \<and> exit_cb p = Some g \<and>
        c = Exit_cb (pid p) g (chld_exit_status s) (chld_term_signal s))"
  by (cases "reaped_status w p"; cases "exit_cb p"; auto simp: exit_calls_of_def)

text \<open>
  C6. Take a run of the POSIX reaper in which every \<^verbatim>\<open>waitpid\<close> gives an answer
  (after the interruptions) that is not an error other than \<open>ECHILD\<close>. The run returns.
  For a queued handle with an exit callback whose child \<^verbatim>\<open>waitpid\<close> reports
  terminated with status word \<open>st\<close>, the callback is called with
  \<open>(WEXITSTATUS st, 0)\<close> when the child exited normally and with \<open>(0, WTERMSIG st)\<close>
  when a signal terminated it. Every call the run makes has its arguments decoded from a
  reaped handle's status in this way.
\<close>

theorem uv__chld_exit_arguments:
  assumes answers: "\<forall>p \<in> set (concat handles).
        \<exists>r e s. waitpid_loop (w (pid p)) = Some (r, e, s) \<and> (r = -1 \<longrightarrow> e = ECHILD)"
    and queued: "process \<in> set (concat handles)"
    and reaped: "reaped_status w process = Some st"
    and cb: "exit_cb process = Some f"
  shows "\<exists>handles' stopped calls.
           uv__chld w handles = Returns (handles', stopped, calls)
           \<and> (WIFEXITED st \<longrightarrow> Exit_cb (pid process) f (WEXITSTATUS st) 0 \<in> set calls)
           \<and> (WIFSIGNALED st \<longrightarrow> Exit_cb (pid process) f 0 (WTERMSIG st) \<in> set calls)
           \<and> (\<forall>c \<in> set calls. \<exists>p \<in> set (concat handles). \<exists>s g.
                 reaped_status w p = Some s \<and> exit_cb p = Some g \<and>
                 c = Exit_cb (pid p) g (if WIFEXITED s then WEXITSTATUS s else 0)
                       (if WIFSIGNALED s then WTERMSIG s else 0))"
proof -
  from chld_queues_total [OF answers] obtain handles' stopped calls where
    ret: "uv__chld w handles = Returns (handles', stopped, calls)"
    by (auto simp: uv__chld_def)
  then have calls: "calls = concat (map (exit_calls_of w) (concat handles))"
    using chld_queues_Returns by (simp add: uv__chld_def)
  have mine: "Exit_cb (pid process) f (chld_exit_status st) (chld_term_signal st) \<in> set calls"
    using queued reaped cb unfolding calls by (auto simp: exit_calls_of_in)
  have ex: "WIFEXITED st \<Longrightarrow> Exit_cb (pid process) f (WEXITSTATUS st) 0 \<in> set calls"
    using mine by (simp add: chld_exit_status_def chld_term_signal_def WIFEXITED_not_WIFSIGNALED)
  have sg: "Exit_cb (pid process) f 0 (WTERMSIG st) \<in> set calls" if "WIFSIGNALED st"
  proof -
    from that WIFEXITED_not_WIFSIGNALED [of st] have "\<not> WIFEXITED st" by blast
    with that mine show ?thesis
      by (simp add: chld_exit_status_def chld_term_signal_def)
  qed
  have all: "\<forall>c \<in> set calls. \<exists>p \<in> set (concat handles). \<exists>s g.
                 reaped_status w p = Some s \<and> exit_cb p = Some g \<and>
                 c = Exit_cb (pid p) g (if WIFEXITED s then WEXITSTATUS s else 0)
                       (if WIFSIGNALED s then WTERMSIG s else 0)"
    unfolding calls
    by (auto simp: exit_calls_of_in chld_exit_status_def chld_term_signal_def)
  from ret ex sg all show ?thesis by blast
qed

theorem uv__chld_exit_arguments_witness:
  "reaped_status waitpid0 child12 = Some 0x0300 \<and> WIFEXITED 0x0300
   \<and> reaped_status waitpid0 child14 = Some 9 \<and> WIFSIGNALED 9
   \<and> (\<exists>handles' stopped calls.
         uv__chld waitpid0 [[child10, child12, child14]] = Returns (handles', stopped, calls)
         \<and> Exit_cb 12 2 3 0 \<in> set calls \<and> Exit_cb 14 3 0 9 \<in> set calls)"
proof -
  have a: "\<forall>p \<in> set (concat [[child10, child12, child14]]).
        \<exists>r e s. waitpid_loop (waitpid0 (pid p)) = Some (r, e, s) \<and> (r = -1 \<longrightarrow> e = ECHILD)"
    by (simp add: waitpid0_def child10_def child12_def child14_def EINTR_def)
  have r12: "reaped_status waitpid0 child12 = Some 0x0300"
    and r14: "reaped_status waitpid0 child14 = Some 9"
    by (simp_all add: reaped_status_def waitpid0_def child12_def child14_def EINTR_def)
  have m: "WIFEXITED 0x0300" "WIFSIGNALED 9" "WEXITSTATUS 0x0300 = 3" "WTERMSIG 9 = 9"
    by (simp_all add: WIFEXITED_def WIFSIGNALED_def WEXITSTATUS_def WTERMSIG_def)
  have c: "exit_cb child12 = Some 2" "exit_cb child14 = Some 3" "pid child12 = 12" "pid child14 = 14"
    by (simp_all add: child12_def child14_def)
  from uv__chld_exit_arguments [OF a _ r12 c(1)] uv__chld_exit_arguments [OF a _ r14 c(2)]
  show ?thesis using r12 r14 m c by auto
qed

subsection \<open>uv_spawn and the exit callback\<close>





text \<open>
  The cleanup after \<^verbatim>\<open>error:\<close>. With fewer containers than rows it reads outside the
  array of containers; with a container for every row it closes nothing, since the rows
  of \<^verbatim>\<open>NULL\<close> streams hold -1.
\<close>

lemma spawn_cleanup_outside:
  "length containers < length pipes \<Longrightarrow>
     spawn_cleanup containers pipes i = Inl (i + length containers)"
proof (induction containers pipes i rule: spawn_cleanup.induct)
  case (1 containers i)
  then show ?case by simp
next
  case (2 row pipes i)
  then show ?case by simp
next
  case (3 c containers row pipes i)
  then show ?case by simp
qed

lemma spawn_init_stdio_length:
  "spawn_init_stdio containers pipes = (err, pipes') \<Longrightarrow> length containers \<le> length pipes
     \<Longrightarrow> length pipes' = length pipes"
proof (induction containers pipes arbitrary: err pipes' rule: spawn_init_stdio.induct)
  case (1 pipes)
  then show ?case by simp
next
  case (2 c cs)
  then show ?case by simp
next
  case (3 c cs fds pipes)
  then show ?case
    by (auto split: prod.splits if_splits)
qed

lemma spawn_cleanup_untouched:
  "\<forall>row \<in> set pipes. row = (-1, -1) \<Longrightarrow> spawn_cleanup containers pipes i = Inr closed
     \<Longrightarrow> closed = []"
proof (induction containers pipes i arbitrary: closed rule: spawn_cleanup.induct)
  case (1 containers i)
  then show ?case by simp
next
  case (2 row pipes i)
  then show ?case by simp
next
  case (3 c containers row pipes i)
  then show ?case
    by (auto split: sum.splits if_splits)
qed

lemma init_stdio_null_stream:
  assumes "uv__process_init_stdio c (-1, -1) = (e, row)"
  shows "fst row = -1 \<and> (c = UV_STREAM None \<longrightarrow> e = 0 \<and> snd row = -1)"
proof (cases c)
  case (UV_STREAM stream)
  with assms show ?thesis
    by (cases stream) (auto simp: init_stdio_fd_def split: if_splits)
next
  case (UV_RAW_FD f)
  with assms show ?thesis by (auto simp: init_stdio_fd_def split: if_splits)
next
  case (UV_RAW_HANDLE f)
  with assms show ?thesis by (auto simp: init_stdio_fd_def split: if_splits)
next
  case UV_OTHER_TYPE
  with assms show ?thesis by auto
qed

lemma spawn_cleanup_closes_nothing:
  "spawn_init_stdio containers pipes = (err, pipes') \<Longrightarrow>
   \<forall>row \<in> set pipes. row = (-1, -1) \<Longrightarrow>
   spawn_cleanup containers pipes' i = Inr closed \<Longrightarrow> closed = []"
proof (induction containers pipes arbitrary: err pipes' i closed rule: spawn_init_stdio.induct)
  case (1 pipes)
  then show ?case by (simp add: spawn_cleanup_untouched)
next
  case (2 c cs)
  then show ?case by simp
next
  case (3 c cs row pipes)
  from "3.prems"(2) have row: "row = (-1, -1)" and rest: "\<forall>r \<in> set pipes. r = (-1, -1)"
    by simp_all
  obtain e row' where u: "uv__process_init_stdio c row = (e, row')"
    by (cases "uv__process_init_stdio c row")
  from init_stdio_null_stream [OF u [unfolded row]]
  have n: "fst row' = -1" "c = UV_STREAM None \<longrightarrow> e = 0 \<and> snd row' = -1"
    by simp_all
  show ?case
  proof (cases "e = 0")
    case False
    with "3.prems"(1) u have p: "pipes' = row' # pipes" by simp
    from "3.prems"(3) obtain closed' where
      c: "spawn_cleanup cs pipes (Suc i) = Inr closed'"
      and cl: "closed = (if c = UV_STREAM None then filter (\<lambda>f. f \<noteq> -1) [fst row', snd row']
                         else []) @ closed'"
      unfolding p by (auto split: sum.splits)
    from spawn_cleanup_untouched [OF rest c] have "closed' = []" .
    with cl n False show ?thesis by auto
  next
    case True
    obtain err' pipes'' where r: "spawn_init_stdio cs pipes = (err', pipes'')"
      by (cases "spawn_init_stdio cs pipes")
    with "3.prems"(1) u True have p: "pipes' = row' # pipes''" by simp
    from "3.prems"(3) obtain closed' where
      c: "spawn_cleanup cs pipes'' (Suc i) = Inr closed'"
      and cl: "closed = (if c = UV_STREAM None then filter (\<lambda>f. f \<noteq> -1) [fst row', snd row']
                         else []) @ closed'"
      unfolding p by (auto split: sum.splits)
    from "3.IH" [OF u [symmetric] _ r rest c] True have "closed' = []" by simp
    with cl n show ?thesis by auto
  qed
qed

lemma spawn_cleanup_inside:
  "length pipes \<le> length containers \<Longrightarrow> \<exists>closed. spawn_cleanup containers pipes i = Inr closed"
proof (induction containers pipes i rule: spawn_cleanup.induct)
  case (1 containers i)
  then show ?case by simp
next
  case (2 row pipes i)
  then show ?case by simp
next
  case (3 c containers row pipes i)
  then show ?case by auto
qed

text \<open>
  With a container for every row, a failure of \<^verbatim>\<open>uv__process_init_stdio\<close> or of
  \<^verbatim>\<open>vfork\<close> is returned.
\<close>

lemma uv_spawn_error_returns:
  assumes "malloc_ok os" and "3 \<le> length (stdio options)"
    and "spawn_init_stdio (stdio options) (replicate (length (stdio options)) (-1, -1))
         = (err, pipes)"
    and "err \<noteq> 0 \<or> fork_res os = -1"
  shows "uv_spawn P handles process options os
         = Spawn_returns
             (if err \<noteq> 0 then (err, handles, process\<lparr>active := False\<rparr>, None)
              else (- fork_errno os, handles, process\<lparr>active := False, status := 0\<rparr>, None))"
proof -
  from spawn_init_stdio_length [OF assms(3)] have "length pipes = length (stdio options)"
    by simp
  then obtain closed where "spawn_cleanup (stdio options) pipes 0 = Inr closed"
    using spawn_cleanup_inside [of pipes "stdio options" 0] by auto
  then show ?thesis
    using assms
    by (auto simp: uv_spawn_def spawn_error_def stdio_count_def Let_def)
qed

lemma uv_spawn_error_outside:
  assumes "malloc_ok os" and "length (stdio options) < 3"
    and "fst (spawn_init_stdio (stdio options) (replicate 3 (-1, -1))) \<noteq> 0 \<or> fork_res os = -1"
  shows "uv_spawn P handles process options os = Stdio_read_outside (length (stdio options))"
proof -
  obtain err pipes where
    i: "spawn_init_stdio (stdio options) (replicate 3 (-1, -1)) = (err, pipes)"
    by (cases "spawn_init_stdio (stdio options) (replicate 3 (-1, -1))")
  from spawn_init_stdio_length [OF i] assms(2) have "length pipes = 3" by simp
  with assms(2) have "spawn_cleanup (stdio options) pipes 0 = Inl (length (stdio options))"
    by (simp add: spawn_cleanup_outside)
  then show ?thesis
    using assms i
    by (auto simp: uv_spawn_def spawn_error_def stdio_count_def Let_def numeral_3_eq_3)
qed

lemma uv_spawn_fork_failure_example:
  "uv_spawn P0 [[]] process0 options0 (spawn_os_ok\<lparr>fork_res := -1, fork_errno := EAGAIN\<rparr>)
   = Stdio_read_outside 0"
  by code_simp

lemma concat_QUEUE_INSERT_TAIL:
  "i < length handles \<Longrightarrow>
     set (concat (QUEUE_INSERT_TAIL handles i process)) = insert process (set (concat handles))"
proof -
  assume i: "i < length handles"
  have "set (concat (handles[i := handles ! i @ [process]]))
        = (\<Union>q \<in> set (handles[i := handles ! i @ [process]]). set q)" by simp
  also have "set (handles[i := handles ! i @ [process]])
        = insert (handles ! i @ [process]) (set (take i handles) \<union> set (drop (Suc i) handles))"
    using i by (simp add: upd_conv_take_nth_drop)
  finally have "set (concat (handles[i := handles ! i @ [process]]))
     = insert process (set (handles ! i) \<union> (\<Union>q \<in> set (take i handles) \<union> set (drop (Suc i) handles). set q))"
    by auto
  moreover have "set (concat handles) = set (handles ! i) \<union> (\<Union>q \<in> set (take i handles) \<union> set (drop (Suc i) handles). set q)"
  proof -
    have "handles = take i handles @ handles ! i # drop (Suc i) handles"
      using i by (simp add: id_take_nth_drop)
    then have "set (concat handles) = set (concat (take i handles @ handles ! i # drop (Suc i) handles))"
      by simp
    then show ?thesis by auto
  qed
  ultimately show ?thesis by (simp add: QUEUE_INSERT_TAIL_def)
qed

















subsection \<open>The child's standard descriptors\<close>

text \<open>
  C9. The claim is that a spawn with no stdio containers gives a child whose descriptors
  0, 1 and 2 are open on \<^verbatim>\<open>/dev/null\<close>. Here the parent has descriptor 0 closed and
  1 and 2 open. In the child, \<^verbatim>\<open>open("/dev/null")\<close> for slot 0 returns descriptor 0
  itself, so \<^verbatim>\<open>fd == use_fd\<close>; \<^verbatim>\<open>close_fd\<close> is that same descriptor and is not -1,
  so the round ends by closing it. For slots 1 and 2 the open again returns 0, which is
  copied to the slot and closed. The spawn returns 0, the child execs, and its
  descriptor 0 is closed.
\<close>

theorem spawn_stdin_closed_example:
  "stdio_count options0 = 0
   \<and> uv_spawn P0 [[]] process0 options0 (spawn_os_ok\<lparr>fds := [None, Some tty, Some tty]\<rparr>)
       = Spawn_returns (0, [[child42]], child42,
          Some (Inr [None, Some (devnull O_RDWR), Some (devnull O_RDWR)]))
   \<and> \<not> is_open [None, Some (devnull O_RDWR), Some (devnull O_RDWR)] 0"
  by code_simp

text \<open>
  The ordinary case, for comparison: the parent has descriptors 0, 1 and 2 open. Then
  \<^verbatim>\<open>open\<close> returns a descriptor above 2, which is copied to the slot and closed.
\<close>

lemma lowest_free_le: "lowest_free t \<le> length t"
  by (induction t rule: lowest_free.induct) simp_all

lemma lowest_free_ge3:
  assumes "is_open t 0" "is_open t 1" "is_open t 2"
  shows "3 \<le> lowest_free t"
proof -
  from assms obtain a b c r where t: "t = a # b # c # r"
    by (cases t; cases "tl t"; cases "tl (tl t)") (auto simp: is_open_def)
  with assms obtain x y z where "a = Some x" "b = Some y" "c = Some z"
    by (auto simp: is_open_def numeral_2_eq_2)
  with t show ?thesis by simp
qed

lemma child_slot_devnull:
  assumes o: "is_open t 0" "is_open t 1" "is_open t 2" and n: "n < 3"
  shows "case sys_open t ''/dev/null'' m of (use_fd, t') \<Rightarrow>
           (let u = child_slot n use_fd use_fd t' in
              u ! n = Some (devnull m)
              \<and> (\<forall>i < 3. i \<noteq> n \<longrightarrow> u ! i = t ! i)
              \<and> is_open u 0 \<and> is_open u 1 \<and> is_open u 2)"
proof -
  let ?k = "lowest_free t"
  let ?e = "devnull m"
  have k: "3 \<le> ?k" by (rule lowest_free_ge3 [OF o])
  have kl: "?k \<le> length t" by (rule lowest_free_le)
  let ?t1 = "put_fd t ?k ?e"
  have t1: "?t1 = (if ?k < length t then t[?k := Some ?e] else t @ [Some ?e])"
    using kl by (auto simp: put_fd_def)
  have len1: "?k < length ?t1" using kl by (simp add: t1)
  have open1: "is_open ?t1 (int ?k)" "?t1 ! ?k = Some ?e"
    using len1 by (auto simp: is_open_def t1 nth_append)
  have nk: "n < ?k" "n < length ?t1" using n k len1 by simp_all
  let ?u = "(?t1[n := Some ?e])[?k := None]"
  have slot: "child_slot n (int ?k) (int ?k) ?t1 = ?u"
    using nk open1 len1
    by (simp add: child_slot_def sys_dup2_def sys_close_def put_fd_def is_open_def Let_def
        devnull_def)
  have un: "?u ! n = Some ?e" using nk by simp
  have rest: "i < 3 \<Longrightarrow> i \<noteq> n \<Longrightarrow> ?u ! i = t ! i" for i
    using k kl by (auto simp: t1 nth_append)
  have lenu: "3 \<le> length ?u" using k len1 by simp
  have ot: "i < 3 \<Longrightarrow> t ! i \<noteq> None" for i
  proof -
    assume "i < 3"
    then have "i = 0 \<or> i = 1 \<or> i = 2" by arith
    with o show ?thesis by (auto simp: is_open_def)
  qed
  have some: "i < 3 \<Longrightarrow> ?u ! i \<noteq> None" for i
  proof (cases "i = n")
    case True
    with un show ?thesis by simp
  next
    case False
    assume "i < 3"
    with False rest [of i] ot [of i] show ?thesis by simp
  qed
  have ou: "is_open ?u 0" "is_open ?u 1" "is_open ?u 2"
    using lenu some [of 0] some [of 1] some [of 2] by (auto simp: is_open_def)
  show ?thesis
    using un rest ou slot
    by (simp add: sys_open_def devnull_def Let_def)
qed

lemma child_stdio_devnull:
  assumes o: "is_open t 0" "is_open t 1" "is_open t 2"
    and oe: "oe 0 = None" "oe 1 = None" "oe 2 = None"
  shows "\<exists>u. child_stdio oe 0 [(-1, -1), (-1, -1), (-1, -1)] t = Inr u
             \<and> u ! 0 = Some (devnull O_RDONLY) \<and> u ! 1 = Some (devnull O_RDWR)
             \<and> u ! 2 = Some (devnull O_RDWR) \<and> 3 \<le> length u"
proof -
  define a where "a = child_slot 0 (fst (sys_open t ''/dev/null'' O_RDONLY))
                        (fst (sys_open t ''/dev/null'' O_RDONLY))
                        (snd (sys_open t ''/dev/null'' O_RDONLY))"
  define b where "b = child_slot 1 (fst (sys_open a ''/dev/null'' O_RDWR))
                        (fst (sys_open a ''/dev/null'' O_RDWR))
                        (snd (sys_open a ''/dev/null'' O_RDWR))"
  define c where "c = child_slot 2 (fst (sys_open b ''/dev/null'' O_RDWR))
                        (fst (sys_open b ''/dev/null'' O_RDWR))
                        (snd (sys_open b ''/dev/null'' O_RDWR))"
  from child_slot_devnull [OF o, of 0 O_RDONLY]
  have a: "a ! 0 = Some (devnull O_RDONLY)" "is_open a 0" "is_open a 1" "is_open a 2"
    by (simp_all add: a_def split_beta Let_def)
  from child_slot_devnull [OF a(2,3,4), of 1 O_RDWR]
  have b: "b ! 1 = Some (devnull O_RDWR)" "b ! 0 = a ! 0"
    "is_open b 0" "is_open b 1" "is_open b 2"
    by (simp_all add: b_def split_beta Let_def)
  from child_slot_devnull [OF b(3,4,5), of 2 O_RDWR]
  have c: "c ! 2 = Some (devnull O_RDWR)" "c ! 0 = b ! 0" "c ! 1 = b ! 1" "is_open c 2"
    by (simp_all add: c_def split_beta Let_def)
  have run: "child_stdio oe 0 [(-1, -1), (-1, -1), (-1, -1)] t = Inr c"
    using oe by (simp add: a_def b_def c_def split_beta numeral_2_eq_2)
  from c(4) have "3 \<le> length c" by (simp add: is_open_def)
  with run a b c show ?thesis by simp
qed

lemma sys_exec_devnull:
  "i < length u \<Longrightarrow> u ! i = Some (devnull m) \<Longrightarrow> sys_exec u ! i = Some (devnull m)"
  by (simp add: sys_exec_def devnull_def)

text \<open>
  A spawn with no stdio containers from a parent whose descriptors 0, 1 and 2 are open,
  every call in the child succeeding: the spawn returns 0 and the new program runs with
  descriptors 0, 1 and 2 open on \<^verbatim>\<open>/dev/null\<close>, read-only for descriptor 0.
\<close>

lemma uv_spawn_devnull:
  assumes "stdio options = []" and "malloc_ok os" and "fork_res os \<noteq> -1"
    and "child os = child_ok"
    and "is_open (fds os) 0" and "is_open (fds os) 1" and "is_open (fds os) 2"
  shows "\<exists>handles' process' u.
           uv_spawn P handles process options os
             = Spawn_returns (0, handles', process', Some (Inr u))
           \<and> u ! 0 = Some (devnull O_RDONLY) \<and> u ! 1 = Some (devnull O_RDWR)
           \<and> u ! 2 = Some (devnull O_RDWR)
           \<and> is_open u 0 \<and> is_open u 1 \<and> is_open u 2"
proof -
  have oe: "open_errno child_ok 0 = None" "open_errno child_ok 1 = None"
    "open_errno child_ok 2 = None"
    by (simp_all add: child_ok_def)
  from child_stdio_devnull [OF assms(5,6,7) oe] obtain u where
    u: "child_stdio (open_errno child_ok) 0 [(-1, -1), (-1, -1), (-1, -1)] (fds os) = Inr u"
      "u ! 0 = Some (devnull O_RDONLY)" "u ! 1 = Some (devnull O_RDWR)"
      "u ! 2 = Some (devnull O_RDWR)" "3 \<le> length u"
    by blast
  have init: "uv__process_child_init P options [(-1, -1), (-1, -1), (-1, -1)] child_ok (fds os)
              = Inr (sys_exec u)"
    unfolding uv__process_child_init_def u(1) by (simp add: child_ok_def)
  have pipes: "spawn_init_stdio (stdio options) (replicate (nat 3) (-1, -1))
               = (0, [(-1, -1), (-1, -1), (-1, -1)])"
    using assms(1) by (simp add: numeral_3_eq_3)
  have e: "sys_exec u ! 0 = Some (devnull O_RDONLY)" "sys_exec u ! 1 = Some (devnull O_RDWR)"
    "sys_exec u ! 2 = Some (devnull O_RDWR)"
  proof -
    from u(5) have l: "0 < length u" "1 < length u" "2 < length u" by auto
    show "sys_exec u ! 0 = Some (devnull O_RDONLY)" by (rule sys_exec_devnull [OF l(1) u(2)])
    show "sys_exec u ! 1 = Some (devnull O_RDWR)" by (rule sys_exec_devnull [OF l(2) u(3)])
    show "sys_exec u ! 2 = Some (devnull O_RDWR)" by (rule sys_exec_devnull [OF l(3) u(4)])
  qed
  have len: "3 \<le> length (sys_exec u)" using u(5) by (simp add: sys_exec_def)
  have op: "is_open (sys_exec u) 0" "is_open (sys_exec u) 1" "is_open (sys_exec u) 2"
    using e len by (auto simp: is_open_def)
  have "\<exists>handles' process'.
          uv_spawn P handles process options os
            = Spawn_returns (0, handles', process', Some (Inr (sys_exec u)))"
    using assms(1,2,3,4) pipes init
    by (simp add: uv_spawn_def stdio_count_def Let_def)
  with e op show ?thesis by blast
qed

lemma uv_spawn_devnull_example:
  "\<exists>handles' process' u.
      uv_spawn P0 [[]] process0 options0 spawn_os_ok
        = Spawn_returns (0, handles', process', Some (Inr u))
      \<and> u ! 0 = Some (devnull O_RDONLY) \<and> u ! 1 = Some (devnull O_RDWR)
      \<and> u ! 2 = Some (devnull O_RDWR)"
proof -
  have "stdio options0 = []" "malloc_ok spawn_os_ok" "fork_res spawn_os_ok \<noteq> -1"
    "child spawn_os_ok = child_ok"
    "is_open (fds spawn_os_ok) 0" "is_open (fds spawn_os_ok) 1" "is_open (fds spawn_os_ok) 2"
    by (simp_all add: options0_def spawn_os_ok_def is_open_def)
  from uv_spawn_devnull [OF this, of P0 "[[]]" process0] show ?thesis by blast
qed

subsection \<open>make_program_env\<close>

lemma lower_names:
  "map tolower (''SYSTEMROOT'' @ ''='') = ''systemroot=''"
  "map tolower (''SYSTEMDRIVE'' @ ''='') = ''systemdrive=''"
  "map tolower (''TEMP'' @ ''='') = ''temp=''"
  by code_simp+

lemma names_var_iff:
  "names_var name e \<longleftrightarrow> map tolower (take (length name + 1) e) = map tolower (name @ ''='')"
proof -
  have "take (length name + 1) (name @ ''='') = name @ ''=''" by simp
  then show ?thesis
    unfolding names_var_def strnicmp_eq_def by (simp only:) (rule eq_commute)
qed

lemma names_var_unfold:
  "names_var ''SYSTEMROOT'' e \<longleftrightarrow> map tolower (take 11 e) = ''systemroot=''"
  "names_var ''SYSTEMDRIVE'' e \<longleftrightarrow> map tolower (take 12 e) = ''systemdrive=''"
  "names_var ''TEMP'' e \<longleftrightarrow> map tolower (take 5 e) = ''temp=''"
proof -
  have l: "length ''SYSTEMROOT'' + 1 = (11::nat)" "length ''SYSTEMDRIVE'' + 1 = (12::nat)"
    "length ''TEMP'' + 1 = (5::nat)"
    by simp_all
  show "names_var ''SYSTEMROOT'' e \<longleftrightarrow> map tolower (take 11 e) = ''systemroot=''"
    by (simp only: names_var_iff l lower_names)
  show "names_var ''SYSTEMDRIVE'' e \<longleftrightarrow> map tolower (take 12 e) = ''systemdrive=''"
    by (simp only: names_var_iff l lower_names)
  show "names_var ''TEMP'' e \<longleftrightarrow> map tolower (take 5 e) = ''temp=''"
    by (simp only: names_var_iff l lower_names)
qed

lemma take_of_map_take: "n \<le> m \<Longrightarrow> take n (map f (take m e)) = map f (take n e)"
  by (simp add: take_map min_def)

lemma names_var_exclusive:
  "names_var ''SYSTEMROOT'' e \<Longrightarrow> \<not> names_var ''SYSTEMDRIVE'' e"
  "names_var ''SYSTEMROOT'' e \<Longrightarrow> \<not> names_var ''TEMP'' e"
  "names_var ''SYSTEMDRIVE'' e \<Longrightarrow> \<not> names_var ''TEMP'' e"
proof -
  show "names_var ''SYSTEMROOT'' e \<Longrightarrow> \<not> names_var ''SYSTEMDRIVE'' e"
  proof
    assume a: "names_var ''SYSTEMROOT'' e" and b: "names_var ''SYSTEMDRIVE'' e"
    from a have "take 7 (map tolower (take 11 e)) = take 7 ''systemroot=''"
      by (simp only: names_var_unfold)
    moreover from b have "take 7 (map tolower (take 12 e)) = take 7 ''systemdrive=''"
      by (simp only: names_var_unfold)
    ultimately show False
      by (simp add: take_of_map_take)
  qed
  show "names_var ''SYSTEMROOT'' e \<Longrightarrow> \<not> names_var ''TEMP'' e"
  proof
    assume a: "names_var ''SYSTEMROOT'' e" and b: "names_var ''TEMP'' e"
    from a have "take 1 (map tolower (take 11 e)) = take 1 ''systemroot=''"
      by (simp only: names_var_unfold)
    moreover from b have "take 1 (map tolower (take 5 e)) = take 1 ''temp=''"
      by (simp only: names_var_unfold)
    ultimately show False
      by (simp add: take_of_map_take)
  qed
  show "names_var ''SYSTEMDRIVE'' e \<Longrightarrow> \<not> names_var ''TEMP'' e"
  proof
    assume a: "names_var ''SYSTEMDRIVE'' e" and b: "names_var ''TEMP'' e"
    from a have "take 1 (map tolower (take 12 e)) = take 1 ''systemdrive=''"
      by (simp only: names_var_unfold)
    moreover from b have "take 1 (map tolower (take 5 e)) = take 1 ''temp=''"
      by (simp only: names_var_unfold)
    ultimately show False
      by (simp add: take_of_map_take)
  qed
qed

lemma E_V_fields:
  "strnicmp_eq (narrow (E_V name)) e (len (E_V name)) = names_var name e"
  by (simp add: E_V_def names_var_def)

lemma check_required_marked:
  "check_required_vars_contains_var (required_marked a b c) e
   = required_marked (a \<or> names_var ''SYSTEMROOT'' e) (b \<or> names_var ''SYSTEMDRIVE'' e)
       (c \<or> names_var ''TEMP'' e)"
  using names_var_exclusive [of e]
  by (auto simp: required_marked_def E_V_fields)

lemma env_check_loop_marked:
  "env_check_loop (required_marked a b c) env_block
   = required_marked (a \<or> caller_supplies env_block ''SYSTEMROOT'')
       (b \<or> caller_supplies env_block ''SYSTEMDRIVE'') (c \<or> caller_supplies env_block ''TEMP'')"
proof (induction env_block arbitrary: a b c)
  case Nil
  then show ?case by (simp add: caller_supplies_def)
next
  case (Cons e env_block)
  show ?case
    by (simp add: check_required_marked Cons.IH caller_supplies_def disj_assoc)
qed

lemma required_vars_marked: "required_vars = required_marked False False False"
  by (simp add: required_vars_def required_marked_def E_V_def)

lemma GetEnv_size:
  "fst (GetEnvironmentVariableW penv name 0) = (case penv name of None \<Rightarrow> 0 | Some v \<Rightarrow> length v + 1)"
  by (simp add: GetEnvironmentVariableW_def split: option.splits)

lemma GetEnv_copy:
  "penv name = Some v \<Longrightarrow> GetEnvironmentVariableW penv name (Suc (length v)) = (length v, Some v)"
  by (simp add: GetEnvironmentVariableW_def)

lemma env_size_loop_marked:
  assumes "a \<or> penv ''SYSTEMROOT'' \<noteq> None" "b \<or> penv ''SYSTEMDRIVE'' \<noteq> None"
    "c \<or> penv ''TEMP'' \<noteq> None"
  shows "env_size_loop penv (required_marked a b c)
    = Some [(E_V ''SYSTEMROOT'')\<lparr>supplied := a,
               value_len := (if a then 0 else length (the (penv ''SYSTEMROOT'')) + 1)\<rparr>,
            (E_V ''SYSTEMDRIVE'')\<lparr>supplied := b,
               value_len := (if b then 0 else length (the (penv ''SYSTEMDRIVE'')) + 1)\<rparr>,
            (E_V ''TEMP'')\<lparr>supplied := c,
               value_len := (if c then 0 else length (the (penv ''TEMP'')) + 1)\<rparr>]"
  using assms
  by (auto simp: required_marked_def GetEnv_size E_V_def Let_def split: option.splits)

lemma env_size_loop_fatal:
  assumes "(\<not> a \<and> penv ''SYSTEMROOT'' = None) \<or> (\<not> b \<and> penv ''SYSTEMDRIVE'' = None)
    \<or> (\<not> c \<and> penv ''TEMP'' = None)"
  shows "env_size_loop penv (required_marked a b c) = None"
  using assms
  by (auto simp: required_marked_def GetEnv_size E_V_def Let_def split: option.splits)


lemma env_inject_loop_marked:
  assumes "a \<or> (penv ''SYSTEMROOT'' \<noteq> None \<and> the (penv ''SYSTEMROOT'') \<noteq> [])"
    "b \<or> (penv ''SYSTEMDRIVE'' \<noteq> None \<and> the (penv ''SYSTEMDRIVE'') \<noteq> [])"
    "c \<or> (penv ''TEMP'' \<noteq> None \<and> the (penv ''TEMP'') \<noteq> [])"
  shows "env_inject_loop penv
           [(E_V ''SYSTEMROOT'')\<lparr>supplied := a,
               value_len := (if a then 0 else length (the (penv ''SYSTEMROOT'')) + 1)\<rparr>,
            (E_V ''SYSTEMDRIVE'')\<lparr>supplied := b,
               value_len := (if b then 0 else length (the (penv ''SYSTEMDRIVE'')) + 1)\<rparr>,
            (E_V ''TEMP'')\<lparr>supplied := c,
               value_len := (if c then 0 else length (the (penv ''TEMP'')) + 1)\<rparr>]
    = Some ((if a then [] else ''SYSTEMROOT'' @ ''='' @ the (penv ''SYSTEMROOT'') @ [CHR 0x00])
          @ (if b then [] else ''SYSTEMDRIVE'' @ ''='' @ the (penv ''SYSTEMDRIVE'') @ [CHR 0x00])
          @ (if c then [] else ''TEMP'' @ ''='' @ the (penv ''TEMP'') @ [CHR 0x00]))"
proof -
  have sr: "env_inject_loop penv (r # rs)
      = map_option (\<lambda>f. wide r @ ''='' @ the (penv (wide r)) @ [CHR 0x00] @ f)
          (env_inject_loop penv rs)"
    if "\<not> supplied r" "penv (wide r) \<noteq> None" "the (penv (wide r)) \<noteq> []"
      "value_len r = Suc (length (the (penv (wide r))))"
    for r rs
    using that by (auto simp: GetEnv_copy split: option.splits)
  have sk: "env_inject_loop penv (r # rs) = env_inject_loop penv rs" if "supplied r" for r rs
    using that by simp
  show ?thesis
  proof (cases a; cases b; cases c)
  qed (use assms in \<open>simp_all add: sr sk E_V_def del: env_inject_loop.simps(2)\<close>)
qed

lemma env_inject_loop_fatal:
  assumes "(\<not> a \<and> penv ''SYSTEMROOT'' = Some []) \<or> (\<not> b \<and> penv ''SYSTEMDRIVE'' = Some [])
    \<or> (\<not> c \<and> penv ''TEMP'' = Some [])"
  shows "env_inject_loop penv
           [(E_V ''SYSTEMROOT'')\<lparr>supplied := a,
               value_len := (if a then 0 else length (the (penv ''SYSTEMROOT'')) + 1)\<rparr>,
            (E_V ''SYSTEMDRIVE'')\<lparr>supplied := b,
               value_len := (if b then 0 else length (the (penv ''SYSTEMDRIVE'')) + 1)\<rparr>,
            (E_V ''TEMP'')\<lparr>supplied := c,
               value_len := (if c then 0 else length (the (penv ''TEMP'')) + 1)\<rparr>] = None"
  using assms
  by (auto simp: E_V_def GetEnvironmentVariableW_def split: option.splits)

lemma injected_entries_flat:
  "concat (map (\<lambda>e. e @ [CHR 0x00]) (injected_entries penv env_block))
   = (if caller_supplies env_block ''SYSTEMROOT'' then []
      else ''SYSTEMROOT'' @ ''='' @ the (penv ''SYSTEMROOT'') @ [CHR 0x00])
   @ (if caller_supplies env_block ''SYSTEMDRIVE'' then []
      else ''SYSTEMDRIVE'' @ ''='' @ the (penv ''SYSTEMDRIVE'') @ [CHR 0x00])
   @ (if caller_supplies env_block ''TEMP'' then []
      else ''TEMP'' @ ''='' @ the (penv ''TEMP'') @ [CHR 0x00])"
  by (simp add: injected_entries_def)

lemma env_copy_loop_flat:
  "\<forall>e \<in> set env_block. utf16 e \<noteq> None \<Longrightarrow>
     env_copy_loop utf16 env_block
     = Some (concat (map (\<lambda>e. e @ [CHR 0x00]) (map (\<lambda>e. the (utf16 e)) env_block)))"
  by (induction env_block) auto

lemma env_copy_loop_fails:
  "\<exists>e \<in> set env_block. utf16 e = None \<Longrightarrow> env_copy_loop utf16 env_block = None"
proof (induction env_block)
  case Nil
  then show ?case by simp
next
  case (Cons a rest)
  show ?case
  proof (cases "utf16 a")
    case None
    then show ?thesis by simp
  next
    case (Some wide_a)
    with Cons.prems have "\<exists>e \<in> set rest. utf16 e = None" by auto
    from Cons.IH [OF this] Some show ?thesis by simp
  qed
qed

lemma read_block_string:
  "CHR 0x00 \<notin> set e \<Longrightarrow> read_block (e @ rest) cur = read_block rest (cur @ e)"
  by (induction e arbitrary: cur) auto

lemma read_block_entries:
  "\<forall>e \<in> set es. e \<noteq> [] \<and> CHR 0x00 \<notin> set e \<Longrightarrow>
     read_block (concat (map (\<lambda>e. e @ [CHR 0x00]) es) @ [CHR 0x00]) [] = es"
proof (induction es)
  case Nil
  then show ?case by simp
next
  case (Cons e es)
  then have e: "e \<noteq> []" "CHR 0x00 \<notin> set e" by simp_all
  have "read_block (concat (map (\<lambda>e. e @ [CHR 0x00]) (e # es)) @ [CHR 0x00]) []
        = read_block (e @ (CHR 0x00 # concat (map (\<lambda>e. e @ [CHR 0x00]) es) @ [CHR 0x00])) []"
    by simp
  also have "\<dots> = read_block (CHR 0x00 # concat (map (\<lambda>e. e @ [CHR 0x00]) es) @ [CHR 0x00]) e"
    using read_block_string [OF e(2), of _ "[]"] by simp
  also have "\<dots> = e # read_block (concat (map (\<lambda>e. e @ [CHR 0x00]) es) @ [CHR 0x00]) []"
    using e(1) by simp
  finally show ?case using Cons by simp
qed


lemma tolower_chars:
  "tolower CHR ''S'' = CHR ''s''" "tolower CHR ''Y'' = CHR ''y''" "tolower CHR ''T'' = CHR ''t''"
  "tolower CHR ''E'' = CHR ''e''" "tolower CHR ''M'' = CHR ''m''" "tolower CHR ''R'' = CHR ''r''"
  "tolower CHR ''O'' = CHR ''o''" "tolower CHR ''D'' = CHR ''d''" "tolower CHR ''I'' = CHR ''i''"
  "tolower CHR ''V'' = CHR ''v''" "tolower CHR ''P'' = CHR ''p''" "tolower CHR ''='' = CHR ''=''"
  by code_simp+

lemma names_var_injected:
  "names_var ''SYSTEMROOT'' (''SYSTEMROOT'' @ ''='' @ v)"
  "\<not> names_var ''SYSTEMROOT'' (''SYSTEMDRIVE'' @ ''='' @ v)"
  "\<not> names_var ''SYSTEMROOT'' (''TEMP'' @ ''='' @ v)"
  "\<not> names_var ''SYSTEMDRIVE'' (''SYSTEMROOT'' @ ''='' @ v)"
  "names_var ''SYSTEMDRIVE'' (''SYSTEMDRIVE'' @ ''='' @ v)"
  "\<not> names_var ''SYSTEMDRIVE'' (''TEMP'' @ ''='' @ v)"
  "\<not> names_var ''TEMP'' (''SYSTEMROOT'' @ ''='' @ v)"
  "\<not> names_var ''TEMP'' (''SYSTEMDRIVE'' @ ''='' @ v)"
  "names_var ''TEMP'' (''TEMP'' @ ''='' @ v)"
  by (simp_all add: names_var_unfold tolower_chars)

lemma filter_injected:
  "name \<in> set [''SYSTEMROOT'', ''SYSTEMDRIVE'', ''TEMP''] \<Longrightarrow>
     filter (names_var name) (injected_entries penv env_block)
     = (if caller_supplies env_block name then [] else [name @ ''='' @ the (penv name)])"
  using names_var_injected
  by (auto simp: injected_entries_def)

lemma flat_last: "es \<noteq> [] \<Longrightarrow> last (concat (map (\<lambda>e. e @ [z]) es)) = z"
  by (induction es) auto

lemma flat_empty: "es = [] \<Longrightarrow> concat (map (\<lambda>e. e @ [z]) es) = []"
  by simp

text \<open>
  C5 (as amended). Take a caller environment and a current process that has a non-empty
  value for each of SYSTEMROOT, SYSTEMDRIVE and TEMP that the caller does not supply
  (without such a value, the function ends in \<^verbatim>\<open>uv_fatal_error\<close>). When
  \<^verbatim>\<open>uv_utf8_to_utf16\<close> converts every caller string, to a string that is not empty,
  \<^verbatim>\<open>make_program_env\<close> returns a block that ends with an extra null after the last
  string's terminator; read back string by string, it is the converted caller strings in
  order, followed by \<^verbatim>\<open>NAME=value\<close> with the process's value for each required
  variable the caller does not supply (compared without case on the \<^verbatim>\<open>NAME=\<close> prefix
  of the caller's strings). So every caller string is in the block; a required variable
  appears as many times as the caller's converted strings name it, and once more, with
  the process's value, exactly when the caller does not supply it. When the conversion of
  some caller string fails, the function returns \<^verbatim>\<open>NULL\<close> and there is no block.
\<close>

theorem make_program_env_block:
  assumes vals: "\<forall>name \<in> set [''SYSTEMROOT'', ''SYSTEMDRIVE'', ''TEMP''].
        \<not> caller_supplies env_block name \<longrightarrow>
        (\<exists>v. penv name = Some v \<and> v \<noteq> [] \<and> CHR 0x00 \<notin> set v)"
  shows "((\<forall>e \<in> set env_block. \<exists>wide_e. utf16 e = Some wide_e \<and> wide_e \<noteq> []
                                   \<and> CHR 0x00 \<notin> set wide_e) \<longrightarrow>
          (\<exists>b. make_program_env utf16 penv env_block = Env_block (b @ [CHR 0x00])
             \<and> (b = [] \<or> last b = CHR 0x00)
             \<and> block_entries (Env_block (b @ [CHR 0x00]))
                 = map (\<lambda>e. the (utf16 e)) env_block @ injected_entries penv env_block
             \<and> (\<forall>name \<in> set [''SYSTEMROOT'', ''SYSTEMDRIVE'', ''TEMP''].
                   filter (names_var name) (block_entries (Env_block (b @ [CHR 0x00])))
                   = filter (names_var name) (map (\<lambda>e. the (utf16 e)) env_block)
                     @ (if caller_supplies env_block name then []
                        else [name @ ''='' @ the (penv name)]))))
         \<and> ((\<exists>e \<in> set env_block. utf16 e = None) \<longrightarrow>
              make_program_env utf16 penv env_block = Env_NULL)"
proof -
  let ?a = "caller_supplies env_block ''SYSTEMROOT''"
  let ?b = "caller_supplies env_block ''SYSTEMDRIVE''"
  let ?c = "caller_supplies env_block ''TEMP''"
  let ?conv = "map (\<lambda>e. the (utf16 e)) env_block"
  let ?all = "?conv @ injected_entries penv env_block"
  let ?flat = "concat (map (\<lambda>e. e @ [CHR 0x00]) ?all)"
  have check: "env_check_loop required_vars env_block = required_marked ?a ?b ?c"
    by (simp add: required_vars_marked env_check_loop_marked)
  have v: "?a \<or> (penv ''SYSTEMROOT'' \<noteq> None \<and> the (penv ''SYSTEMROOT'') \<noteq> [])"
    "?b \<or> (penv ''SYSTEMDRIVE'' \<noteq> None \<and> the (penv ''SYSTEMDRIVE'') \<noteq> [])"
    "?c \<or> (penv ''TEMP'' \<noteq> None \<and> the (penv ''TEMP'') \<noteq> [])"
    using vals by auto
  then have v': "?a \<or> penv ''SYSTEMROOT'' \<noteq> None" "?b \<or> penv ''SYSTEMDRIVE'' \<noteq> None"
    "?c \<or> penv ''TEMP'' \<noteq> None"
    by blast+
  have size: "env_size_loop penv (env_check_loop required_vars env_block)
      = env_size_loop penv (required_marked ?a ?b ?c)"
    by (simp only: check)
  have inj_wf: "\<forall>e \<in> set (injected_entries penv env_block). e \<noteq> [] \<and> CHR 0x00 \<notin> set e"
    using vals by (auto simp: injected_entries_def)
  have converted: "\<exists>b. make_program_env utf16 penv env_block = Env_block (b @ [CHR 0x00])
             \<and> (b = [] \<or> last b = CHR 0x00)
             \<and> block_entries (Env_block (b @ [CHR 0x00])) = ?all
             \<and> (\<forall>name \<in> set [''SYSTEMROOT'', ''SYSTEMDRIVE'', ''TEMP''].
                   filter (names_var name) (block_entries (Env_block (b @ [CHR 0x00])))
                   = filter (names_var name) ?conv
                     @ (if caller_supplies env_block name then []
                        else [name @ ''='' @ the (penv name)]))"
    if wf: "\<forall>e \<in> set env_block. \<exists>wide_e. utf16 e = Some wide_e \<and> wide_e \<noteq> []
                                   \<and> CHR 0x00 \<notin> set wide_e"
  proof -
    from wf have some: "\<forall>e \<in> set env_block. utf16 e \<noteq> None" by auto
    have copy: "env_copy_loop utf16 env_block = Some (concat (map (\<lambda>e. e @ [CHR 0x00]) ?conv))"
      by (rule env_copy_loop_flat [OF some])
    have ret: "make_program_env utf16 penv env_block = Env_block (?flat @ [CHR 0x00])"
      by (simp add: make_program_env_def size env_size_loop_marked [OF v']
          env_inject_loop_marked [OF v] copy injected_entries_flat
          del: env_inject_loop.simps env_size_loop.simps)
    have ends: "?flat = [] \<or> last ?flat = CHR 0x00"
      by (cases "?all = []") (simp_all only: flat_empty flat_last simp_thms)
    have conv_wf: "\<forall>e \<in> set ?conv. e \<noteq> [] \<and> CHR 0x00 \<notin> set e"
      using wf by auto
    have entries: "block_entries (Env_block (?flat @ [CHR 0x00])) = ?all"
    proof -
      have "\<forall>e \<in> set ?all. e \<noteq> [] \<and> CHR 0x00 \<notin> set e"
        using conv_wf inj_wf by (simp only: set_append ball_Un)
      from read_block_entries [OF this] show ?thesis
        by (simp only: block_entries_def env_block.case)
    qed
    have each: "\<forall>name \<in> set [''SYSTEMROOT'', ''SYSTEMDRIVE'', ''TEMP''].
        filter (names_var name) (block_entries (Env_block (?flat @ [CHR 0x00])))
        = filter (names_var name) ?conv
          @ (if caller_supplies env_block name then [] else [name @ ''='' @ the (penv name)])"
    proof
      fix name assume n: "name \<in> set [''SYSTEMROOT'', ''SYSTEMDRIVE'', ''TEMP'']"
      show "filter (names_var name) (block_entries (Env_block (?flat @ [CHR 0x00])))
        = filter (names_var name) ?conv
          @ (if caller_supplies env_block name then [] else [name @ ''='' @ the (penv name)])"
        unfolding entries filter_append
        by (simp only: filter_injected [OF n, of penv env_block])
    qed
    from ret ends entries each show ?thesis by blast
  qed
  have failed: "make_program_env utf16 penv env_block = Env_NULL"
    if "\<exists>e \<in> set env_block. utf16 e = None"
    by (simp add: make_program_env_def size env_size_loop_marked [OF v']
        env_copy_loop_fails [OF that]
        del: env_inject_loop.simps env_size_loop.simps env_copy_loop.simps)
  from converted failed show ?thesis by blast
qed


lemma env0_facts:
  "caller_supplies env0 ''TEMP''" "\<not> caller_supplies env0 ''SYSTEMROOT''"
  "\<not> caller_supplies env0 ''SYSTEMDRIVE''"
  "injected_entries penv0 env0 = [''SYSTEMROOT=C:/Windows'', ''SYSTEMDRIVE=C:'']"
  by code_simp+

lemma env_unconverted_facts:
  "\<not> caller_supplies [''A=B'', ''bad''] ''TEMP''"
  "\<not> caller_supplies [''A=B'', ''bad''] ''SYSTEMROOT''"
  "\<not> caller_supplies [''A=B'', ''bad''] ''SYSTEMDRIVE''"
  by code_simp+

theorem make_program_env_block_witness:
  "caller_supplies env0 ''TEMP'' \<and> \<not> caller_supplies env0 ''SYSTEMROOT''
   \<and> (\<exists>b. make_program_env Some penv0 env0 = Env_block (b @ [CHR 0x00])
          \<and> block_entries (Env_block (b @ [CHR 0x00]))
              = [''A=B'', ''temp=x'', ''SYSTEMROOT=C:/Windows'', ''SYSTEMDRIVE=C:'']
          \<and> filter (names_var ''TEMP'') (block_entries (Env_block (b @ [CHR 0x00])))
              = [''temp=x''])
   \<and> make_program_env (\<lambda>e. if e = ''bad'' then None else Some e) penv0 [''A=B'', ''bad'']
       = Env_NULL"
proof -
  have wf: "\<forall>e \<in> set env0. \<exists>wide_e. Some e = Some wide_e \<and> wide_e \<noteq> []
                                   \<and> CHR 0x00 \<notin> set wide_e"
    by (simp add: env0_def)
  have vals: "\<forall>name \<in> set [''SYSTEMROOT'', ''SYSTEMDRIVE'', ''TEMP''].
        \<not> caller_supplies env0 name \<longrightarrow>
        (\<exists>v. penv0 name = Some v \<and> v \<noteq> [] \<and> CHR 0x00 \<notin> set v)"
    by (simp add: penv0_def)
  have f: "filter (names_var ''TEMP'') env0 = [''temp=x'']"
    by code_simp
  from make_program_env_block [OF vals, of Some, THEN conjunct1] wf obtain b where
    b: "make_program_env Some penv0 env0 = Env_block (b @ [CHR 0x00])"
      "block_entries (Env_block (b @ [CHR 0x00]))
       = map (\<lambda>e. the (Some e)) env0 @ injected_entries penv0 env0"
      "\<forall>name \<in> set [''SYSTEMROOT'', ''SYSTEMDRIVE'', ''TEMP''].
                 filter (names_var name) (block_entries (Env_block (b @ [CHR 0x00])))
                 = filter (names_var name) (map (\<lambda>e. the (Some e)) env0)
                   @ (if caller_supplies env0 name then []
                      else [name @ ''='' @ the (penv0 name)])"
    by blast
  have m: "map (\<lambda>e. the (Some e)) env0 = env0" by (simp add: map_idI)
  from b(3) have t: "filter (names_var ''TEMP'') (block_entries (Env_block (b @ [CHR 0x00])))
      = [''temp=x'']"
    using env0_facts(1) f m by simp
  have vals': "\<forall>name \<in> set [''SYSTEMROOT'', ''SYSTEMDRIVE'', ''TEMP''].
        \<not> caller_supplies [''A=B'', ''bad''] name \<longrightarrow>
        (\<exists>v. penv0 name = Some v \<and> v \<noteq> [] \<and> CHR 0x00 \<notin> set v)"
    by (simp add: penv0_def)
  have n: "make_program_env (\<lambda>e. if e = ''bad'' then None else Some e) penv0 [''A=B'', ''bad'']
       = Env_NULL"
    using make_program_env_block [OF vals', of "\<lambda>e. if e = ''bad'' then None else Some e",
        THEN conjunct2]
    by simp
  have e: "block_entries (Env_block (b @ [CHR 0x00]))
           = [''A=B'', ''temp=x'', ''SYSTEMROOT=C:/Windows'', ''SYSTEMDRIVE=C:'']"
    using b(2) m env0_facts(4) by (simp add: env0_def)
  from env0_facts(1,2) b(1) e t n show ?thesis by blast
qed

theorem make_program_env_counterexample:
  "filter (names_var ''TEMP'')
     (block_entries (make_program_env Some penv0 [''TEMP=a'', ''temp=b'']))
   = [''TEMP=a'', ''temp=b'']"
  by code_simp

subsection \<open>quote_cmd_arg and make_program_args\<close>

lemma takeWhile_is_replicate:
  "takeWhile (\<lambda>c. c = x) cs = replicate (length (takeWhile (\<lambda>c. c = x) cs)) x"
  by (induction cs) simp_all

lemma rev_split_run:
  "rev (dropWhile (\<lambda>c. c = x) cs) @ replicate (length (takeWhile (\<lambda>c. c = x) cs)) x = rev cs"
proof -
  have "rev cs = rev (takeWhile (\<lambda>c. c = x) cs @ dropWhile (\<lambda>c. c = x) cs)"
    by simp
  also have "\<dots> = rev (dropWhile (\<lambda>c. c = x) cs) @ rev (takeWhile (\<lambda>c. c = x) cs)"
    by (simp only: rev_append)
  also have "rev (takeWhile (\<lambda>c. c = x) cs) = replicate (length (takeWhile (\<lambda>c. c = x) cs)) x"
    by (subst takeWhile_is_replicate) (simp only: rev_replicate)
  finally show ?thesis by simp
qed

text \<open>
  The parser over the text that the escaping loop writes, from the state just after the
  opening quotation mark: it stays in quotes, has read the source up to its trailing
  backslashes, and holds those as the current run, doubled when the loop doubled them.
\<close>

lemma parse_quote_loop:
  "parse_cmdline (rev (quote_loop cs qh) @ suffix) True 0 [] True
   = parse_cmdline suffix True
       ((if qh then 2 else 1) * length (takeWhile (\<lambda>c. c = CHR 0x5C) cs))
       (rev (dropWhile (\<lambda>c. c = CHR 0x5C) cs)) True"
proof (induction cs arbitrary: qh suffix)
  case Nil
  then show ?case by simp
next
  case (Cons c cs)
  let ?t = "length (takeWhile (\<lambda>c. c = CHR 0x5C) cs)"
  let ?body = "rev (dropWhile (\<lambda>c. c = CHR 0x5C) cs)"
  note run = rev_split_run [of "CHR 0x5C" cs]
  consider (doubled) "qh" "c = CHR 0x5C" | (quote) "c = CHR 0x22"
    | (single) "\<not> qh" "c = CHR 0x5C" | (plain) "c \<noteq> CHR 0x5C" "c \<noteq> CHR 0x22"
    by blast
  then show ?case
  proof cases
    case doubled
    have "parse_cmdline (rev (quote_loop (c # cs) qh) @ suffix) True 0 [] True
          = parse_cmdline (rev (quote_loop cs True) @ (CHR 0x5C # CHR 0x5C # suffix)) True 0 [] True"
      using doubled by simp
    also have "\<dots> = parse_cmdline (CHR 0x5C # CHR 0x5C # suffix) True (2 * ?t) ?body True"
      by (simp add: Cons.IH)
    finally show ?thesis using doubled by simp
  next
    case quote
    have "parse_cmdline (rev (quote_loop (c # cs) qh) @ suffix) True 0 [] True
          = parse_cmdline (rev (quote_loop cs True) @ (CHR 0x5C # CHR 0x22 # suffix)) True 0 [] True"
      using quote by simp
    also have "\<dots> = parse_cmdline (CHR 0x5C # CHR 0x22 # suffix) True (2 * ?t) ?body True"
      by (simp add: Cons.IH)
    also have "\<dots> = parse_cmdline suffix True 0 (?body @ replicate ?t (CHR 0x5C) @ [CHR 0x22]) True"
      by simp
    also have "?body @ replicate ?t (CHR 0x5C) @ [CHR 0x22] = rev cs @ [CHR 0x22]"
      using run by simp
    finally show ?thesis using quote by simp
  next
    case single
    have "parse_cmdline (rev (quote_loop (c # cs) qh) @ suffix) True 0 [] True
          = parse_cmdline (rev (quote_loop cs False) @ (CHR 0x5C # suffix)) True 0 [] True"
      using single by simp
    also have "\<dots> = parse_cmdline (CHR 0x5C # suffix) True ?t ?body True"
      by (simp add: Cons.IH)
    finally show ?thesis using single by simp
  next
    case plain
    have "parse_cmdline (rev (quote_loop (c # cs) qh) @ suffix) True 0 [] True
          = parse_cmdline (rev (quote_loop cs False) @ (c # suffix)) True 0 [] True"
      using plain by simp
    also have "\<dots> = parse_cmdline (c # suffix) True ?t ?body True"
      by (simp add: Cons.IH)
    also have "\<dots> = parse_cmdline suffix True 0 (?body @ replicate ?t (CHR 0x5C) @ [c]) True"
      using plain by simp
    also have "?body @ replicate ?t (CHR 0x5C) @ [c] = rev cs @ [c]"
      using run by simp
    finally show ?thesis using plain by simp
  qed
qed


text \<open>The parser over a run of characters without quotation marks (and, outside
  quotes, without separators).\<close>

lemma parse_plain:
  assumes "CHR 0x22 \<notin> set xs"
    and "inq \<or> (CHR 0x20 \<notin> set xs \<and> CHR 0x09 \<notin> set xs)"
  shows "parse_cmdline (xs @ suffix) inq 0 [] b
         = parse_cmdline suffix inq (length (takeWhile (\<lambda>c. c = CHR 0x5C) (rev xs)))
             (rev (dropWhile (\<lambda>c. c = CHR 0x5C) (rev xs))) (b \<or> xs \<noteq> [])"
  using assms
proof (induction xs arbitrary: suffix rule: rev_induct)
  case Nil
  then show ?case by simp
next
  case (snoc c ys)
  let ?t = "length (takeWhile (\<lambda>c. c = CHR 0x5C) (rev ys))"
  let ?body = "rev (dropWhile (\<lambda>c. c = CHR 0x5C) (rev ys))"
  note run = rev_split_run [of "CHR 0x5C" "rev ys"]
  from snoc.prems have ys: "CHR 0x22 \<notin> set ys" "inq \<or> (CHR 0x20 \<notin> set ys \<and> CHR 0x09 \<notin> set ys)"
    and c: "c \<noteq> CHR 0x22" "inq \<or> (c \<noteq> CHR 0x20 \<and> c \<noteq> CHR 0x09)"
    by auto
  have "parse_cmdline ((ys @ [c]) @ suffix) inq 0 [] b
        = parse_cmdline (ys @ (c # suffix)) inq 0 [] b"
    by simp
  also have "\<dots> = parse_cmdline (c # suffix) inq ?t ?body (b \<or> ys \<noteq> [])"
    by (rule snoc.IH [OF ys])
  finally have step: "parse_cmdline ((ys @ [c]) @ suffix) inq 0 [] b
        = parse_cmdline (c # suffix) inq ?t ?body (b \<or> ys \<noteq> [])" .
  show ?case
  proof (cases "c = CHR 0x5C")
    case True
    then show ?thesis using step by simp
  next
    case False
    have "parse_cmdline (c # suffix) inq ?t ?body (b \<or> ys \<noteq> [])
          = parse_cmdline suffix inq 0 (?body @ replicate ?t (CHR 0x5C) @ [c]) True"
      using False c by auto
    also have "?body @ replicate ?t (CHR 0x5C) @ [c] = ys @ [c]"
      using run by simp
    finally show ?thesis using step False by simp
  qed
qed

lemma no_backslash_run:
  "CHR 0x5C \<notin> set xs \<Longrightarrow>
     length (takeWhile (\<lambda>c. c = CHR 0x5C) (rev xs)) = 0
     \<and> rev (dropWhile (\<lambda>c. c = CHR 0x5C) (rev xs)) = xs"
proof -
  assume "CHR 0x5C \<notin> set xs"
  then have "takeWhile (\<lambda>c. c = CHR 0x5C) (rev xs) = []"
    by (cases "rev xs") (auto simp: takeWhile_eq_Nil_iff)
  moreover from this have "dropWhile (\<lambda>c. c = CHR 0x5C) (rev xs) = rev xs"
    by (metis append_Nil takeWhile_dropWhile_id)
  ultimately show ?thesis by simp
qed

text \<open>
  The state of the parser after the quoted form of a non-empty argument: outside quotes,
  with the argument read. What it holds as current run and as text read so far join to
  the argument.
\<close>

lemma parse_quote_cmd_arg:
  assumes "a \<noteq> []"
  shows "\<exists>nb cur. cur @ replicate nb (CHR 0x5C) = a
           \<and> (\<forall>suffix. parse_cmdline (quote_cmd_arg a @ suffix) False 0 [] False
                         = parse_cmdline suffix False nb cur True)"
proof -
  consider (bare) "\<not> wcspbrk a [CHR 0x20, CHR 0x09, CHR 0x22]"
    | (wrapped) "wcspbrk a [CHR 0x20, CHR 0x09, CHR 0x22]" "\<not> wcspbrk a [CHR 0x22, CHR 0x5C]"
    | (escaped) "wcspbrk a [CHR 0x20, CHR 0x09, CHR 0x22]" "wcspbrk a [CHR 0x22, CHR 0x5C]"
    by blast
  then show ?thesis
  proof cases
    case bare
    then have q: "quote_cmd_arg a = a"
      using assms by (simp add: quote_cmd_arg_def)
    from bare have no: "CHR 0x22 \<notin> set a" "CHR 0x20 \<notin> set a \<and> CHR 0x09 \<notin> set a"
      by (auto simp: wcspbrk_def list_ex_iff)
    have "\<forall>suffix. parse_cmdline (quote_cmd_arg a @ suffix) False 0 [] False
            = parse_cmdline suffix False (length (takeWhile (\<lambda>c. c = CHR 0x5C) (rev a)))
                (rev (dropWhile (\<lambda>c. c = CHR 0x5C) (rev a))) True"
      using parse_plain [of a False _ False] no assms by (simp add: q)
    moreover have "rev (dropWhile (\<lambda>c. c = CHR 0x5C) (rev a))
        @ replicate (length (takeWhile (\<lambda>c. c = CHR 0x5C) (rev a))) (CHR 0x5C) = a"
      using rev_split_run [of "CHR 0x5C" "rev a"] by simp
    ultimately show ?thesis by blast
  next
    case wrapped
    then have q: "quote_cmd_arg a = CHR 0x22 # a @ [CHR 0x22]"
      using assms by (simp add: quote_cmd_arg_def)
    from wrapped(2) have no: "CHR 0x22 \<notin> set a" "CHR 0x5C \<notin> set a"
      by (auto simp: wcspbrk_def list_ex_iff)
    have "parse_cmdline (quote_cmd_arg a @ suffix) False 0 [] False
            = parse_cmdline suffix False 0 a True" for suffix
    proof -
      have "parse_cmdline (quote_cmd_arg a @ suffix) False 0 [] False
            = parse_cmdline (a @ (CHR 0x22 # suffix)) True 0 [] True"
        by (simp add: q)
      also have "\<dots> = parse_cmdline (CHR 0x22 # suffix) True 0 a True"
        using parse_plain [of a True "CHR 0x22 # suffix" True] no no_backslash_run [of a]
        by simp
      finally show ?thesis by simp
    qed
    then show ?thesis by (intro exI [of _ 0] exI [of _ a]) simp
  next
    case escaped
    then have q: "quote_cmd_arg a = CHR 0x22 # rev (quote_loop (rev a) True) @ [CHR 0x22]"
      using assms by (simp add: quote_cmd_arg_def)
    let ?t = "length (takeWhile (\<lambda>c. c = CHR 0x5C) (rev a))"
    let ?body = "rev (dropWhile (\<lambda>c. c = CHR 0x5C) (rev a))"
    have run: "?body @ replicate ?t (CHR 0x5C) = a"
      using rev_split_run [of "CHR 0x5C" "rev a"] by simp
    have "parse_cmdline (quote_cmd_arg a @ suffix) False 0 [] False
            = parse_cmdline suffix False 0 a True" for suffix
    proof -
      have "parse_cmdline (quote_cmd_arg a @ suffix) False 0 [] False
            = parse_cmdline (rev (quote_loop (rev a) True) @ (CHR 0x22 # suffix)) True 0 [] True"
        by (simp add: q)
      also have "\<dots> = parse_cmdline (CHR 0x22 # suffix) True (2 * ?t) ?body True"
        by (simp add: parse_quote_loop)
      also have "\<dots> = parse_cmdline suffix False 0 (?body @ replicate ?t (CHR 0x5C)) True"
        by simp
      finally show ?thesis by (simp only: run)
    qed
    then show ?thesis by (intro exI [of _ 0] exI [of _ a]) simp
  qed
qed

lemma parse_quoted_last:
  "a \<noteq> [] \<Longrightarrow> parse_cmdline (quote_cmd_arg a) False 0 [] False = [a]"
  using parse_quote_cmd_arg [of a] by (metis append_Nil2 parse_cmdline.simps(1))

lemma parse_quoted_then_space:
  "a \<noteq> [] \<Longrightarrow> parse_cmdline (quote_cmd_arg a @ CHR 0x20 # rest) False 0 [] False
     = a # parse_cmdline rest False 0 [] False"
proof -
  assume "a \<noteq> []"
  from parse_quote_cmd_arg [OF this] obtain nb cur where
    j: "cur @ replicate nb (CHR 0x5C) = a"
    and p: "\<And>suffix. parse_cmdline (quote_cmd_arg a @ suffix) False 0 [] False
                         = parse_cmdline suffix False nb cur True"
    by blast
  show ?thesis
    by (simp add: p j)
qed

lemma program_args_roundtrip:
  assumes "args' \<noteq> []" and "\<forall>a \<in> set args'. a \<noteq> [] \<and> utf16 a = Some a"
  shows "\<exists>line. program_args_loop utf16 False args' = Some line
           \<and> parse_cmdline line False 0 [] False = args'"
  using assms
proof (induction args')
  case Nil
  then show ?case by simp
next
  case (Cons a rest)
  then have a: "a \<noteq> []" "utf16 a = Some a" by simp_all
  show ?case
  proof (cases "rest = []")
    case True
    then show ?thesis using a by (simp add: parse_quoted_last)
  next
    case False
    with Cons obtain line where
      l: "program_args_loop utf16 False rest = Some line"
        "parse_cmdline line False 0 [] False = rest"
      by auto
    then show ?thesis
      using a False by (simp add: parse_quoted_then_space)
  qed
qed

text \<open>
  The program name. A name without a quotation mark that, when it holds a space or a tab,
  does not end in a backslash is written so that the rule for the first argument reads it
  back: as it is, or between two quotation marks with nothing doubled.
\<close>

lemma quote_loop_plain: "CHR 0x22 \<notin> set cs \<Longrightarrow> quote_loop cs False = cs"
  by (induction cs) auto

lemma quote_cmd_arg_name:
  assumes "a \<noteq> []" and "CHR 0x22 \<notin> set a"
    and "wcspbrk a [CHR 0x20, CHR 0x09] \<longrightarrow> last a \<noteq> CHR 0x5C"
  shows "quote_cmd_arg a = (if wcspbrk a [CHR 0x20, CHR 0x09]
                            then [CHR 0x22] @ a @ [CHR 0x22] else a)"
proof (cases "wcspbrk a [CHR 0x20, CHR 0x09]")
  case False
  with assms(1,2) show ?thesis
    by (auto simp: quote_cmd_arg_def wcspbrk_def list_ex_iff)
next
  case True
  with assms(3) have l: "last a \<noteq> CHR 0x5C" by simp
  from True have w: "wcspbrk a [CHR 0x20, CHR 0x09, CHR 0x22]"
    by (auto simp: wcspbrk_def list_ex_iff)
  obtain c cs where r: "rev a = c # cs"
    using assms(1) by (cases "rev a") auto
  then have c: "c = last a" by (metis last_rev list.sel(1) rev_rev_ident hd_rev)
  have q: "CHR 0x22 \<notin> set (c # cs)"
    using assms(2) r by (metis set_rev)
  then have "quote_loop (c # cs) True = c # cs"
    using l c by (auto simp: quote_loop_plain)
  then have "rev (quote_loop (rev a) True) = a"
    using r by (metis rev_rev_ident)
  with True w assms(1) show ?thesis
    by (simp add: quote_cmd_arg_def)
qed

lemma program_name_quote_cmd_arg:
  assumes "a \<noteq> []" and "CHR 0x22 \<notin> set a"
    and "wcspbrk a [CHR 0x20, CHR 0x09] \<longrightarrow> last a \<noteq> CHR 0x5C"
    and "suffix = [] \<or> hd suffix = CHR 0x20"
  shows "program_name (quote_cmd_arg a @ suffix) = (a, suffix)"
proof (cases "wcspbrk a [CHR 0x20, CHR 0x09]")
  case True
  then have q: "quote_cmd_arg a = CHR 0x22 # a @ [CHR 0x22]"
    using quote_cmd_arg_name [OF assms(1,2,3)] by simp
  have nq: "\<forall>c \<in> set a. c \<noteq> CHR 0x22"
    using assms(2) by auto
  have "takeWhile (\<lambda>c. c \<noteq> CHR 0x22) (a @ CHR 0x22 # suffix) = a"
    using nq by (simp add: takeWhile_append2)
  moreover have "dropWhile (\<lambda>c. c \<noteq> CHR 0x22) (a @ CHR 0x22 # suffix) = CHR 0x22 # suffix"
    using nq by (simp add: dropWhile_append2)
  ultimately show ?thesis
    by (simp add: program_name_def q)
next
  case False
  then have q: "quote_cmd_arg a = a"
    using quote_cmd_arg_name [OF assms(1,2,3)] by simp
  from False have ws: "\<forall>c \<in> set a. c \<noteq> CHR 0x20 \<and> c \<noteq> CHR 0x09"
    by (auto simp: wcspbrk_def list_ex_iff)
  have h: "hd (a @ suffix) \<noteq> CHR 0x22"
    using assms(1,2) by (cases a) auto
  have "takeWhile (\<lambda>c. c \<noteq> CHR 0x20 \<and> c \<noteq> CHR 0x09) (a @ suffix) = a"
    using ws assms(4) by (cases suffix) (simp_all add: takeWhile_append2)
  moreover have "dropWhile (\<lambda>c. c \<noteq> CHR 0x20 \<and> c \<noteq> CHR 0x09) (a @ suffix) = suffix"
    using ws assms(4) by (cases suffix) (simp_all add: dropWhile_append2)
  ultimately show ?thesis
    using h by (simp add: program_name_def q)
qed

text \<open>
  For an argument vector that is not empty and has no empty argument, and whose program
  name is as above, the command line built in non-verbatim mode parses back to the
  vector, element for element.
\<close>

theorem make_program_args_roundtrip:
  assumes "args' \<noteq> []" and "\<forall>a \<in> set args'. a \<noteq> [] \<and> utf16 a = Some a"
    and "CHR 0x22 \<notin> set (hd args')"
    and "wcspbrk (hd args') [CHR 0x20, CHR 0x09] \<longrightarrow> last (hd args') \<noteq> CHR 0x5C"
  shows "\<exists>line. make_program_args utf16 args' False = Cmdline line
           \<and> CommandLineToArgvW exe line = args'"
proof -
  from assms(1) obtain a rest where args: "args' = a # rest" by (cases args') auto
  with assms have a: "a \<noteq> []" "utf16 a = Some a" "CHR 0x22 \<notin> set a"
    "wcspbrk a [CHR 0x20, CHR 0x09] \<longrightarrow> last a \<noteq> CHR 0x5C"
    by simp_all
  have ne: "quote_cmd_arg a \<noteq> []"
    using quote_cmd_arg_name [OF a(1,3,4)] a(1) by (simp split: if_splits)
  show ?thesis
  proof (cases "rest = []")
    case True
    have "program_name (quote_cmd_arg a @ []) = (a, [])"
      by (rule program_name_quote_cmd_arg [OF a(1,3,4)]) simp
    then show ?thesis
      using True a(2) ne by (simp add: args make_program_args_def CommandLineToArgvW_def)
  next
    case False
    from assms(2) args have "\<forall>b \<in> set rest. b \<noteq> [] \<and> utf16 b = Some b" by simp
    from program_args_roundtrip [OF False this] obtain following where
      l: "program_args_loop utf16 False rest = Some following"
        "parse_cmdline following False 0 [] False = rest"
      by blast
    have "program_name (quote_cmd_arg a @ CHR 0x20 # following) = (a, CHR 0x20 # following)"
      by (rule program_name_quote_cmd_arg [OF a(1,3,4)]) simp
    then show ?thesis
      using False a(2) l ne by (simp add: args make_program_args_def CommandLineToArgvW_def)
  qed
qed

text \<open>
  C4. The claim is that the command line built from any argument vector parses back to
  that vector. For the vector \<^verbatim>\<open>{"prog", "", NULL}\<close>: \<^verbatim>\<open>quote_cmd_arg\<close> returns at
  once for an argument of length 0 and writes nothing, so the command line is
  \<^verbatim>\<open>prog\<close> followed by one space, and it parses to the single argument \<^verbatim>\<open>prog\<close>:
  the empty argument is lost.
\<close>

theorem make_program_args_empty_argument:
  "make_program_args Some [''prog'', []] False = Cmdline ''prog ''
   \<and> CommandLineToArgvW exe ''prog '' = [''prog'']"
  by code_simp

subsection \<open>search_path\<close>

lemma split_semicolons_takeWhile:
  "split_semicolons s cur
   = (cur @ takeWhile (\<lambda>c. c \<noteq> CHR '';'') s)
     # (case dropWhile (\<lambda>c. c \<noteq> CHR '';'') s of [] \<Rightarrow> [] | x # r \<Rightarrow> split_semicolons r [])"
  by (induction s arbitrary: cur) simp_all

text \<open>The slice that starts at \<open>ds\<close>: where it ends, and what follows it.\<close>

lemma slice_end_bounds:
  assumes "ds \<le> length path"
  shows "ds \<le> slice_end path ds" and "slice_end path ds \<le> length path"
    and "slice_end path ds < length path \<Longrightarrow> path ! slice_end path ds = CHR '';''"
    and "take (slice_end path ds - ds) (drop ds path)
         = takeWhile (\<lambda>c. c \<noteq> CHR '';'') (drop ds path)"
proof -
  let ?e = "takeWhile (\<lambda>c. c \<noteq> CHR '';'') (drop ds path)"
  have le: "length ?e \<le> length (drop ds path)" by (rule length_takeWhile_le)
  show "ds \<le> slice_end path ds" by (simp add: slice_end_def)
  show b: "slice_end path ds \<le> length path"
    using le assms by (simp add: slice_end_def)
  have dw: "dropWhile (\<lambda>c. c \<noteq> CHR '';'') (drop ds path) = drop (slice_end path ds) path"
    by (simp add: dropWhile_eq_drop slice_end_def add.commute)
  show "path ! slice_end path ds = CHR '';''" if "slice_end path ds < length path"
  proof -
    from that have ne: "drop (slice_end path ds) path \<noteq> []" by simp
    then have "\<not> (hd (drop (slice_end path ds) path) \<noteq> CHR '';'')"
      using hd_dropWhile [of "\<lambda>c. c \<noteq> CHR '';''" "drop ds path"] dw by simp
    then show ?thesis using that by (simp add: hd_drop_conv_nth)
  qed
  show "take (slice_end path ds - ds) (drop ds path) = ?e"
  proof -
    have "slice_end path ds - ds = length ?e" by (simp add: slice_end_def)
    then show ?thesis by (simp only: takeWhile_eq_take [symmetric])
  qed
qed

lemma split_at_slice:
  assumes "ds \<le> length path"
  shows "split_semicolons (drop ds path) []
         = takeWhile (\<lambda>c. c \<noteq> CHR '';'') (drop ds path)
           # (if slice_end path ds < length path
              then split_semicolons (drop (slice_end path ds + 1) path) [] else [])"
proof -
  have dw: "dropWhile (\<lambda>c. c \<noteq> CHR '';'') (drop ds path) = drop (slice_end path ds) path"
    by (simp add: dropWhile_eq_drop slice_end_def add.commute)
  show ?thesis
  proof (cases "slice_end path ds < length path")
    case True
    then have "drop (slice_end path ds) path
               = path ! slice_end path ds # drop (slice_end path ds + 1) path"
      by (simp add: Cons_nth_drop_Suc)
    then show ?thesis
      using True by (subst split_semicolons_takeWhile) (simp add: dw)
  next
    case False
    then have "drop (slice_end path ds) path = []" by simp
    then show ?thesis
      using False by (subst split_semicolons_takeWhile) (simp add: dw)
  qed
qed


text \<open>
  The two quote tests on a slice that is not empty and not a single quote character:
  the length stays non-negative, and the directory handed on is the entry without a
  leading and without a trailing quote character.
\<close>

lemma adjust_quoted_trim:
  assumes ds: "ds \<le> length path"
    and e: "e = takeWhile (\<lambda>c. c \<noteq> CHR '';'') (drop ds path)" "e \<noteq> []"
    and nsq: "\<not> (length e = 1 \<and> is_quote (hd e))"
  shows "0 \<le> snd (adjust_quoted path ds (slice_end path ds))
    \<and> take (nat (snd (adjust_quoted path ds (slice_end path ds))))
           (drop (fst (adjust_quoted path ds (slice_end path ds))) path) = trim_entry e"
proof -
  obtain r where split: "drop ds path = e @ r"
    using e(1) takeWhile_dropWhile_id [of "\<lambda>c. c \<noteq> CHR '';''" "drop ds path"] by metis
  have len: "slice_end path ds = ds + length e"
    by (simp add: slice_end_def e(1))
  have pos: "0 < length e" using e(2) by simp
  have in_range: "ds + length e \<le> length path"
  proof -
    have "length (drop ds path) = length e + length r" by (simp add: split)
    then show ?thesis using ds by simp
  qed
  have first: "path ! ds = hd e"
  proof -
    have "path ! ds = drop ds path ! 0" using in_range pos by simp
    also have "\<dots> = hd e" using e(2) by (simp add: split hd_conv_nth nth_append)
    finally show ?thesis .
  qed
  have final: "path ! (ds + length e - 1) = last e"
  proof -
    have eq: "ds + length e - 1 = ds + (length e - 1)" using e(2) by (cases e) simp_all
    have "path ! (ds + (length e - 1)) = drop ds path ! (length e - 1)"
      using in_range by simp
    then have "path ! (ds + length e - 1) = drop ds path ! (length e - 1)"
      by (simp only: eq)
    also have "\<dots> = last e" using e(2) pos by (simp add: split last_conv_nth nth_append)
    finally show ?thesis .
  qed
  have tail: "drop (Suc ds) path = tl e @ r"
  proof -
    have "drop (Suc ds) path = tl (drop ds path)" by (simp add: drop_Suc drop_tl)
    then show ?thesis using e(2) by (simp add: split)
  qed
  have final': "path ! (ds + (length e - 1)) = last e"
  proof -
    have "ds + length e - 1 = ds + (length e - 1)" using e(2) by (cases e) simp_all
    with final show ?thesis by (simp only:)
  qed
  have idx: "nat (int ds + (int (length e) - 1)) = ds + (length e - 1)"
    "nat (int ds + int (length e) - 1) = ds + (length e - 1)"
    using e(2) by (cases e; simp)+
  have n: "nat (int (length e) - 1) = length e - 1" "nat (int (length e) - 2) = length e - 2"
    "nat (int (length e) - 1 - 1) = length e - 2"
    by simp_all
  have two: "2 \<le> length e" if "is_quote (hd e)"
  proof (cases e)
    case Nil
    with e(2) show ?thesis by simp
  next
    case (Cons a list)
    with nsq that have "list \<noteq> []" by auto
    then have "1 \<le> length list" by (cases list) simp_all
    with Cons show ?thesis by simp
  qed
  have one: "Suc 0 \<le> length e" using e(2) by (cases e) simp_all
  have t2: "take (length e - 2) (tl e @ r) = butlast (tl e)" if "is_quote (hd e)"
    using two [OF that] by (simp add: butlast_conv_take numeral_2_eq_2)
  have t1: "take (length e - 1) (tl e @ r) = tl e" by simp
  have t0: "take (length e - 1) (e @ r) = butlast e"
    by (simp add: butlast_conv_take)
  have value_of: "adjust_quoted path ds (slice_end path ds)
      = (if is_quote (hd e) then Suc ds else ds,
         int (length e) - (if is_quote (hd e) then 1 else 0)
           - (if is_quote (last e) then 1 else 0))"
    using final' by (simp add: adjust_quoted_def len Let_def first idx)
  show ?thesis
    unfolding value_of
    using two t2 t1 t0 one
    by (auto simp: trim_entry_def tail split n)
qed


text \<open>
  The loop from a position \<open>k\<close> that is the start of \<^verbatim>\<open>path\<close> (not at a semicolon)
  or lies after it: it ends, and tries in order the trimmed non-empty entries that follow
  the position.
\<close>

lemma search_path_loop_directories:
  assumes "k \<le> length path"
    and "k = 0 \<longrightarrow> path = [] \<or> hd path \<noteq> CHR '';''"
    and "k < length path \<longrightarrow>
         (\<forall>e \<in> set (split_semicolons (drop (skip_separator k) path) []).
            \<not> (length e = 1 \<and> is_quote (hd e)))"
  shows "search_path_loop fs file' cwd' path ext k
         = Some (search_directories fs
             (if k < length path
              then map trim_entry (filter (\<lambda>e. e \<noteq> [])
                     (split_semicolons (drop (skip_separator k) path) []))
              else [])
             file' cwd' ext)"
  using assms
proof (induction "length path - k" arbitrary: k rule: less_induct)
  case less
  show ?case
  proof (cases "k < length path")
    case False
    then show ?thesis
      by (subst search_path_loop.simps) simp
  next
    case True
    let ?ds = "skip_separator k"
    let ?de = "slice_end path ?ds"
    let ?e = "takeWhile (\<lambda>c. c \<noteq> CHR '';'') (drop ?ds path)"
    let ?rest = "if ?de < length path then split_semicolons (drop (?de + 1) path) [] else []"
    let ?dirs = "map trim_entry (filter (\<lambda>e. e \<noteq> []) ?rest)"
    have ds: "?ds \<le> length path"
      using True by (simp add: skip_separator_def)
    note b = slice_end_bounds [OF ds]
    have split: "split_semicolons (drop ?ds path) [] = ?e # ?rest"
      by (rule split_at_slice [OF ds])
    have len: "?de = ?ds + length ?e"
      by (simp add: slice_end_def)
    have further: "k < ?de"
    proof (cases "k = 0")
      case k0: True
      with less.prems(2) True have "path \<noteq> []" "hd path \<noteq> CHR '';''" by auto
      then have "?e \<noteq> []"
        using k0 by (cases path) (simp_all add: skip_separator_def)
      then show ?thesis using k0 len by simp
    next
      case False
      then show ?thesis using b(1) by (simp add: skip_separator_def)
    qed
    then have skip: "skip_separator ?de = ?de + 1"
      by (simp add: skip_separator_def)
    have nsq: "\<forall>e \<in> set (?e # ?rest). \<not> (length e = 1 \<and> is_quote (hd e))"
      using less.prems(3) True split by simp
    have IH: "search_path_loop fs file' cwd' path ext ?de
              = Some (search_directories fs ?dirs file' cwd' ext)"
    proof -
      have m: "length path - ?de < length path - k"
        using further True by simp
      have p3: "?de < length path \<longrightarrow>
         (\<forall>e \<in> set (split_semicolons (drop (skip_separator ?de) path) []).
            \<not> (length e = 1 \<and> is_quote (hd e)))"
        using nsq by (simp add: skip)
      have p2: "?de = 0 \<longrightarrow> path = [] \<or> hd path \<noteq> CHR '';''"
        using further by simp
      from less.hyps [OF m b(2) p2 p3] show ?thesis
        by (simp add: skip)
    qed
    show ?thesis
    proof (cases "?e = []")
      case e: True
      then have z: "?de - ?ds = 0" using len by simp
      have "search_path_loop fs file' cwd' path ext k
            = search_path_loop fs file' cwd' path ext ?de"
        using True z by (subst search_path_loop.simps) simp
      then show ?thesis
        using True IH split e by simp
    next
      case e: False
      then have nz: "?de - ?ds \<noteq> 0" using len by simp
      from nsq have "\<not> (length ?e = 1 \<and> is_quote (hd ?e))" by simp
      from adjust_quoted_trim [OF ds refl e this]
      have pos: "\<not> snd (adjust_quoted path ?ds ?de) < 0"
        and dir: "take (nat (snd (adjust_quoted path ?ds ?de)))
                    (drop (fst (adjust_quoted path ?ds ?de)) path) = trim_entry ?e"
        by simp_all
      have "search_path_loop fs file' cwd' path ext k
            = (case path_search_walk_ext fs (trim_entry ?e) file' cwd' ext of
                 Some result \<Rightarrow> Some (Found result)
               | None \<Rightarrow> search_path_loop fs file' cwd' path ext ?de)"
        using True nz pos by (subst search_path_loop.simps) (simp add: dir)
      then show ?thesis
        using True IH split e by (simp split: option.splits)
    qed
  qed
qed


lemma file_name_start_no_directory:
  "no_directory_part file' \<Longrightarrow> file_name_start file' = 0"
proof -
  assume "no_directory_part file'"
  then have "\<forall>c \<in> set (rev file'). c \<noteq> CHR 0x5C \<and> c \<noteq> CHR ''/'' \<and> c \<noteq> CHR '':''"
    by (auto simp: no_directory_part_def list_ex_iff)
  then have "takeWhile (\<lambda>c. c \<noteq> CHR 0x5C \<and> c \<noteq> CHR ''/'' \<and> c \<noteq> CHR '':'') (rev file')
             = rev file'"
    by (rule takeWhile_eq_all_conv [THEN iffD2])
  then show ?thesis by (simp only: file_name_start_def length_rev diff_self_eq_0)
qed

text \<open>
  C8 (as amended). In the Windows executable search, when the file name has no directory
  part, the current directory is tried first and then the semicolon-separated entries of
  \<^verbatim>\<open>PATH\<close> in order, until the file is found; empty entries are skipped; of each
  entry one quote character (double or single) at the start is left out if there is one,
  and one at the end if there is one, whether or not the two match. This is stated for a
  \<^verbatim>\<open>PATH\<close> that does not begin with a semicolon and has no entry that is a single quote
  character.
\<close>

theorem search_path_order:
  assumes "file' \<noteq> []" and "file' \<noteq> ''.''" and "no_directory_part file'"
    and "path = [] \<or> hd path \<noteq> CHR '';''"
    and "\<forall>e \<in> set (split_semicolons path []). \<not> (length e = 1 \<and> is_quote (hd e))"
  shows "search_path fs file' cwd' path
         = Some (search_directories fs ([] # path_directories path) file' cwd'
                   (name_has_ext_of file'))"
proof -
  have start: "file_name_start file' = 0"
    by (rule file_name_start_no_directory [OF assms(3)])
  have dot: "\<not> (length file' = 1 \<and> file' ! 0 = CHR ''.'')"
    using assms(2) by (cases file') auto
  have loop: "search_path_loop fs file' cwd' path (name_has_ext_of file') 0
      = Some (search_directories fs (path_directories path) file' cwd' (name_has_ext_of file'))"
  proof -
    have "0 < length path \<longrightarrow>
         (\<forall>e \<in> set (split_semicolons (drop (skip_separator 0) path) []).
            \<not> (length e = 1 \<and> is_quote (hd e)))"
      using assms(5) by (simp add: skip_separator_def)
    from search_path_loop_directories [of 0 path, OF _ _ this] assms(4)
    show ?thesis
      by (cases "path = []") (simp_all add: skip_separator_def path_directories_def)
  qed
  show ?thesis
    using assms(1) dot
    by (auto simp: search_path_def start loop Let_def split: option.splits)
qed

lemma path_mixed_facts:
  "no_directory_part ''x''"
  "hd path_mixed \<noteq> CHR '';''"
  "list_all (\<lambda>e. \<not> (length e = 1 \<and> is_quote (hd e))) (split_semicolons path_mixed [])"
  "path_directories path_mixed = [''D:/a'', ''C:/bin'']"
  "search_directories fs0 ([] # path_directories path_mixed) ''x'' ''C:/work''
     (name_has_ext_of ''x'') = Found (''C:/bin'' @ [CHR 0x5C] @ ''x.exe'')"
  by code_simp+

theorem search_path_order_witness:
  "no_directory_part ''x'' \<and> hd path_mixed \<noteq> CHR '';''
   \<and> path_directories path_mixed = [''D:/a'', ''C:/bin'']
   \<and> search_path fs0 ''x'' ''C:/work'' path_mixed
       = Some (Found (''C:/bin'' @ [CHR 0x5C] @ ''x.exe''))"
proof -
  have e: "\<forall>e \<in> set (split_semicolons path_mixed []). \<not> (length e = 1 \<and> is_quote (hd e))"
    using path_mixed_facts(3) by (simp add: list_all_iff)
  have f: "''x'' \<noteq> []" "''x'' \<noteq> ''.''" by simp_all
  from search_path_order [OF f path_mixed_facts(1) disjI2 [OF path_mixed_facts(2)] e,
      of fs0 "''C:/work''"]
  show ?thesis
    using path_mixed_facts by simp
qed

theorem search_path_unmatched_quote_counterexample:
  "search_path fs0 ''x'' ''C:/work'' path_unmatched
     = Some (Found (''C:/bin'' @ [CHR 0x5C] @ ''x.exe''))
   \<and> path_unmatched = [CHR 0x22] @ ''C:/bin''"
  by code_simp

text \<open>
  A \<^verbatim>\<open>PATH\<close> that begins with a semicolon: the first slice is empty and
  \<^verbatim>\<open>dir_end\<close> stays at \<^verbatim>\<open>path\<close>, where the separator is never skipped, so the
  loop does not end: the search returns only when the file is in the current directory.
\<close>

lemma search_path_loop_stuck:
  assumes "search_path_loop fs file' cwd' path ext k = Some y"
  shows "\<not> (k = 0 \<and> path \<noteq> [] \<and> hd path = CHR '';'')"
proof (rule search_path_loop.raw_induct [where P = "\<lambda>fs file' cwd' path ext k y.
          \<not> (k = 0 \<and> path \<noteq> [] \<and> hd path = CHR '';'')", OF _ assms], goal_cases)
  case (1 loop fs file' cwd' path ext k y)
  show ?case
  proof
    assume a: "k = 0 \<and> path \<noteq> [] \<and> hd path = CHR '';''"
    then obtain rest where p: "path = CHR '';'' # rest" by (cases path) auto
    have s: "skip_separator k = 0" "slice_end path 0 = 0"
      using a p by (simp_all add: slice_end_def skip_separator_def)
    from 1(2) a p s have "loop fs file' cwd' path ext 0 = Some y"
      by simp
    from 1(1) [OF this] a show False by simp
  qed
qed

lemma search_path_loop_leading_semicolon:
  "search_path_loop fs file' cwd' (CHR '';'' # rest) ext 0 = None"
proof (cases "search_path_loop fs file' cwd' (CHR '';'' # rest) ext 0")
  case None
  then show ?thesis .
next
  case (Some y)
  from search_path_loop_stuck [OF this] show ?thesis by simp
qed

lemma search_path_leading_semicolon:
  assumes "file' \<noteq> []" and "file' \<noteq> ''.''" and "no_directory_part file'"
    and "path_search_walk_ext fs [] file' cwd' (name_has_ext_of file') = None"
  shows "search_path fs file' cwd' (CHR '';'' # rest) = None"
proof -
  have start: "file_name_start file' = 0"
    by (rule file_name_start_no_directory [OF assms(3)])
  have dot: "\<not> (length file' = 1 \<and> file' ! 0 = CHR ''.'')"
    using assms(2) by (cases file') auto
  show ?thesis
    using assms(1,4) dot
    by (simp add: search_path_def start Let_def search_path_loop_leading_semicolon)
qed

lemma search_path_leading_semicolon_example:
  "search_path fs0 ''y'' ''C:/work'' '';C:/bin'' = None"
proof -
  have "''y'' \<noteq> []" "''y'' \<noteq> ''.''" by simp_all
  moreover have "no_directory_part ''y''"
    "path_search_walk_ext fs0 [] ''y'' ''C:/work'' (name_has_ext_of ''y'') = None"
    by code_simp+
  ultimately show ?thesis
    using search_path_leading_semicolon [of "''y''" fs0 "''C:/work''" "''C:/bin''"] by simp
qed

end
